theory Spec2Isabelle
  imports Complex_Main
begin

section \<open>Camera-pose canonicalisation (gerry00\_canonicalize\_camera\_poses.ipynb)\<close>

text \<open>
  The notebook works on numpy arrays of floats.  The embedding keeps the shape of the
  arrays (lists of rows) and computes with exact real numbers; rounding is not modelled.
  The array \<open>Ts\<close> of poses is the one the notebook builds from the frames sorted by file
  path: \<open>N\<close> matrices with four rows and columns and finite entries.
  What numpy does at a division by zero is modelled: an array element is an
  \<open>npfloat\<close>, a finite real or one of the IEEE special values (the sign of a zero
  divisor is not tracked).  Python exceptions are values of \<open>error\<close>, as is the
  failure of the similarity fit that the specification names.
\<close>

subsection \<open>Array elements and exceptions\<close>

datatype error = ValueError | AssertionError | ZeroDivisionError | IndexError | InsufficientGeometry

datatype npfloat = Fin real | PInf | NInf | NaN

type_synonym vec = "real list"
type_synonym mat = "real list list"

fun np_neg :: "npfloat \<Rightarrow> npfloat" where
  "np_neg (Fin x) = Fin (- x)"
| "np_neg PInf = NInf"
| "np_neg NInf = PInf"
| "np_neg NaN = NaN"

fun np_add :: "npfloat \<Rightarrow> npfloat \<Rightarrow> npfloat" where
  "np_add (Fin x) (Fin y) = Fin (x + y)"
| "np_add NaN _ = NaN"
| "np_add _ NaN = NaN"
| "np_add PInf NInf = NaN"
| "np_add NInf PInf = NaN"
| "np_add PInf _ = PInf"
| "np_add _ PInf = PInf"
| "np_add NInf _ = NInf"
| "np_add _ NInf = NInf"

definition np_sub :: "npfloat \<Rightarrow> npfloat \<Rightarrow> npfloat" where
  "np_sub a b = np_add a (np_neg b)"

fun np_sgn_inf :: "real \<Rightarrow> npfloat" where
  "np_sgn_inf x = (if x = 0 then NaN else if 0 < x then PInf else NInf)"

fun np_mul :: "npfloat \<Rightarrow> npfloat \<Rightarrow> npfloat" where
  "np_mul (Fin x) (Fin y) = Fin (x * y)"
| "np_mul NaN _ = NaN"
| "np_mul _ NaN = NaN"
| "np_mul PInf (Fin y) = np_sgn_inf y"
| "np_mul (Fin x) PInf = np_sgn_inf x"
| "np_mul NInf (Fin y) = np_sgn_inf (- y)"
| "np_mul (Fin x) NInf = np_sgn_inf (- x)"
| "np_mul PInf PInf = PInf"
| "np_mul NInf NInf = PInf"
| "np_mul PInf NInf = NInf"
| "np_mul NInf PInf = NInf"

fun np_div :: "npfloat \<Rightarrow> npfloat \<Rightarrow> npfloat" where
  "np_div (Fin x) (Fin y) = (if y = 0 then np_sgn_inf x else Fin (x / y))"
| "np_div NaN _ = NaN"
| "np_div _ NaN = NaN"
| "np_div (Fin x) PInf = Fin 0"
| "np_div (Fin x) NInf = Fin 0"
| "np_div PInf (Fin y) = (if 0 \<le> y then PInf else NInf)"
| "np_div NInf (Fin y) = (if 0 \<le> y then NInf else PInf)"
| "np_div PInf PInf = NaN"
| "np_div PInf NInf = NaN"
| "np_div NInf PInf = NaN"
| "np_div NInf NInf = NaN"

fun np_less :: "npfloat \<Rightarrow> npfloat \<Rightarrow> bool" where
  "np_less (Fin x) (Fin y) = (x < y)"
| "np_less NaN _ = False"
| "np_less _ NaN = False"
| "np_less NInf NInf = False"
| "np_less NInf _ = True"
| "np_less _ NInf = False"
| "np_less PInf _ = False"
| "np_less _ PInf = True"

definition np_greater :: "npfloat \<Rightarrow> npfloat \<Rightarrow> bool" where
  "np_greater a b = np_less b a"

subsection \<open>Cell 8: the normalised distance matrix\<close>

text \<open>
  The slices of one pose \<open>P = Ts[i]\<close>: the translation \<open>P[:3, 3]\<close>, the ray direction
  \<open>P[:3, 2]\<close> and the rotation block \<open>P[:3, :3]\<close>.
\<close>

definition trans_col :: "'a list list \<Rightarrow> 'a list" where
  "trans_col P = map (\<lambda>row. row ! 3) (take 3 P)"

definition ray_col :: "'a list list \<Rightarrow> 'a list" where
  "ray_col P = map (\<lambda>row. row ! 2) (take 3 P)"

definition rot_block :: "'a list list \<Rightarrow> 'a list list" where
  "rot_block P = map (take 3) (take 3 P)"

text \<open>\<open>Ts[:, :3, 3]\<close>: the translation column of every pose.\<close>

definition ts_of :: "mat list \<Rightarrow> vec list" where
  "ts_of Ts = map trans_col Ts"

text \<open>\<open>np.sqrt(np.sum(np.square(ts[:,:,None] - ts.T[None,:,:]), axis=1))\<close>\<close>

definition euclid :: "vec \<Rightarrow> vec \<Rightarrow> real" where
  "euclid p q = sqrt (sum_list (map2 (\<lambda>a b. (a - b)\<^sup>2) p q))"

definition pairwise_dists :: "vec list \<Rightarrow> real list list" where
  "pairwise_dists ts = map (\<lambda>p. map (\<lambda>q. euclid p q) ts) ts"

text \<open>\<open>np.max\<close> of a matrix; it raises on an array without elements.\<close>

definition np_max :: "real list list \<Rightarrow> error + real" where
  "np_max D = (case concat D of [] \<Rightarrow> Inl ValueError | x # xs \<Rightarrow> Inr (fold max xs x))"

text \<open>\<open>np.fill_diagonal(dists, 1)\<close>\<close>

definition fill_diagonal :: "'a list list \<Rightarrow> 'a \<Rightarrow> 'a list list" where
  "fill_diagonal D v = map (\<lambda>i. (D ! i)[i := v]) [0..<length D]"

text \<open>
  The cell as a whole.  With no frame at all \<open>Ts\<close> is a one-dimensional empty array and
  the three-index slice raises.
\<close>

definition normalized_dists :: "vec list \<Rightarrow> error + npfloat list list" where
  "normalized_dists ts =
     (if ts = [] then Inl IndexError
      else let D = pairwise_dists ts in
        case np_max D of
          Inl e \<Rightarrow> Inl e
        | Inr m \<Rightarrow> Inr (fill_diagonal (map (map (\<lambda>d. np_div (Fin d) (Fin m))) D) (Fin 1)))"

subsection \<open>Cell 9: duplicate removal, ring selection, reference ring\<close>

definition threshold :: real where
  "threshold = pi * (15 / 360) / 2"

text \<open>\<open>np.argwhere(dists < threshold)\<close>: the index pairs in row-major order.\<close>

definition duplicates :: "npfloat list list \<Rightarrow> (nat \<times> nat) list" where
  "duplicates D =
     concat (map (\<lambda>i. map (\<lambda>j. (i, j))
                        (filter (\<lambda>j. np_less (D ! i ! j) (Fin threshold)) [0..<length (D ! i)]))
                 [0..<length D])"

text \<open>\<open>list.remove\<close>: drops the first occurrence, raises when there is none.\<close>

definition list_remove :: "nat \<Rightarrow> nat list \<Rightarrow> error + nat list" where
  "list_remove x xs = (if x \<in> set xs then Inr (remove1 x xs) else Inl ValueError)"

text \<open>\<open>for _, dup in filter(lambda dup: dup[0] < dup[1], duplicates): to_take.remove(dup)\<close>\<close>

fun remove_loop :: "(nat \<times> nat) list \<Rightarrow> nat list \<Rightarrow> error + nat list" where
  "remove_loop [] to_take = Inr to_take"
| "remove_loop ((_, dup) # ps) to_take =
     (case list_remove dup to_take of
        Inl e \<Rightarrow> Inl e
      | Inr to_take' \<Rightarrow> remove_loop ps to_take')"

definition to_take_of :: "nat \<Rightarrow> npfloat list list \<Rightarrow> error + nat list" where
  "to_take_of n D = remove_loop (filter (\<lambda>(i, j). i < j) (duplicates D)) [0..<n]"

text \<open>Cells 8 and 9 up to the list of kept indices, from the translations.\<close>

definition remove_duplicates :: "vec list \<Rightarrow> error + nat list" where
  "remove_duplicates ts =
     (case normalized_dists ts of
        Inl e \<Rightarrow> Inl e
      | Inr D \<Rightarrow> to_take_of (length ts) D)"

text \<open>Whether the pair \<open>(i, j)\<close> is a row of \<open>duplicates\<close>.\<close>

definition flagged :: "vec list \<Rightarrow> nat \<Rightarrow> nat \<Rightarrow> bool" where
  "flagged ts i j =
     (case normalized_dists ts of
        Inl e \<Rightarrow> False
      | Inr D \<Rightarrow> (i, j) \<in> set (duplicates D))"

text \<open>Which of the two halves of \<open>to_take\<close> is the bigger circle.\<close>

definition big_circle_of :: "npfloat list list \<Rightarrow> nat list \<Rightarrow> nat list" where
  "big_circle_of D to_take =
     (if np_greater (D ! (to_take ! 0) ! (to_take ! 11)) (D ! (to_take ! 24) ! (to_take ! 35))
      then take 24 to_take else drop 24 to_take)"


text \<open>\<open>np.arange(start, stop, step)\<close> on integers, for a positive step.\<close>

definition arange :: "int \<Rightarrow> int \<Rightarrow> int \<Rightarrow> int list" where
  "arange start stop step =
     map (\<lambda>k. start + step * int k) [0..<nat ((stop - start + step - 1) div step)]"

text \<open>\<open>theta = -(np.arange(0, 360, 15) * np.pi / 180).reshape(-1, 1)\<close>\<close>

definition theta :: "real list" where
  "theta = map (\<lambda>a. - (real_of_int a * pi / 180)) (arange 0 360 15)"

text \<open>\<open>expected = np.hstack((np.cos(theta), np.sin(theta), np.zeros_like(theta)))\<close>\<close>

definition expected :: "vec list" where
  "expected = map (\<lambda>th. [cos th, sin th, 0]) theta"

text \<open>
  The cell from the distance matrix on.  \<open>ICP_transform_with_scale\<close> is imported from a
  module that is not part of the notebook; it is a parameter \<open>ICP\<close> here, called with
  the translations of the big circle and the reference ring.
\<close>

definition cell9 ::
  "(vec list \<Rightarrow> vec list \<Rightarrow> error + 'r) \<Rightarrow> vec list \<Rightarrow> npfloat list list \<Rightarrow> error + 'r" where
  "cell9 ICP ts D =
     (case to_take_of (length ts) D of
        Inl e \<Rightarrow> Inl e
      | Inr to_take \<Rightarrow>
          if length to_take \<noteq> 48 then Inl AssertionError
          else ICP (map (\<lambda>i. ts ! i) (big_circle_of D to_take)) expected)"

subsection \<open>Cell 10: applying the transform\<close>

text \<open>\<open>T = np.zeros((4, 4)); T[:3, :3] = sR; T[:3, 3] = t; T[3, 3] = 1\<close>\<close>

definition assemble_T :: "mat \<Rightarrow> vec \<Rightarrow> mat" where
  "assemble_T sR t =
     [[sR ! 0 ! 0, sR ! 0 ! 1, sR ! 0 ! 2, t ! 0],
      [sR ! 1 ! 0, sR ! 1 ! 1, sR ! 1 ! 2, t ! 1],
      [sR ! 2 ! 0, sR ! 2 ! 1, sR ! 2 ! 2, t ! 2],
      [0, 0, 0, 1]]"

text \<open>The matrix product \<open>A @ B\<close> of two-dimensional arrays.\<close>

definition column :: "mat \<Rightarrow> nat \<Rightarrow> vec" where
  "column B j = map (\<lambda>row. row ! j) B"

definition dot :: "vec \<Rightarrow> vec \<Rightarrow> real" where
  "dot u v = sum_list (map2 (*) u v)"

definition matmul :: "mat \<Rightarrow> mat \<Rightarrow> mat" where
  "matmul A B = map (\<lambda>row. map (\<lambda>j. dot row (column B j)) [0..<length (B ! 0)]) A"

text \<open>\<open>new_Ts = T @ Ts\<close>: the product is broadcast over the first axis of \<open>Ts\<close>.\<close>

definition cell10 :: "mat \<Rightarrow> vec \<Rightarrow> mat list \<Rightarrow> mat list" where
  "cell10 sR t Ts = map (\<lambda>P. matmul (assemble_T sR t) P) Ts"

text \<open>Cells 8 to 10 in sequence, on the array of poses.\<close>

definition canonicalize ::
  "(vec list \<Rightarrow> vec list \<Rightarrow> error + 'a \<times> mat \<times> vec) \<Rightarrow> mat list \<Rightarrow> error + mat list" where
  "canonicalize ICP Ts =
     (case normalized_dists (ts_of Ts) of
        Inl e \<Rightarrow> Inl e
      | Inr D \<Rightarrow>
          (case cell9 ICP (ts_of Ts) D of
             Inl e \<Rightarrow> Inl e
           | Inr (_, sR, t) \<Rightarrow> Inr (cell10 sR t Ts)))"

text \<open>Well-formed poses and the operations the statements below are written with.\<close>

definition is_pose :: "mat \<Rightarrow> bool" where
  "is_pose P \<longleftrightarrow> length P = 4 \<and> list_all (\<lambda>row. length row = 4) P \<and> P ! 3 = [0, 0, 0, 1]"

definition is_mat3 :: "mat \<Rightarrow> bool" where
  "is_mat3 M \<longleftrightarrow> length M = 3 \<and> list_all (\<lambda>row. length row = 3) M"

definition matvec :: "mat \<Rightarrow> vec \<Rightarrow> vec" where
  "matvec M v = map (\<lambda>row. dot row v) M"

definition vadd :: "vec \<Rightarrow> vec \<Rightarrow> vec" where
  "vadd u v = map2 (+) u v"

definition smul_vec :: "real \<Rightarrow> vec \<Rightarrow> vec" where
  "smul_vec s v = map (\<lambda>x. s * x) v"

definition smul_mat :: "real \<Rightarrow> mat \<Rightarrow> mat" where
  "smul_mat s M = map (smul_vec s) M"

definition identity3 :: mat where
  "identity3 = [[1, 0, 0], [0, 1, 0], [0, 0, 1]]"

definition identity4 :: mat where
  "identity4 = [[1, 0, 0, 0], [0, 1, 0, 0], [0, 0, 1, 0], [0, 0, 0, 1]]"

subsection \<open>Cell 17: the height of the subject\<close>

text \<open>\<open>ray_dirs, ts = Ts[:, :3, 2], Ts[:, :3, 3]\<close>\<close>

definition ray_dirs_of :: "mat list \<Rightarrow> vec list" where
  "ray_dirs_of Ts = map ray_col Ts"

text \<open>
  One row of \<open>v_xy\<close>, for a camera at \<open>t\<close> with ray direction \<open>ray\<close>:
  \<open>np.sum(x_xy * ray_xy) * ray_xy / np.sum(np.square(ray_xy))\<close> with \<open>x_xy = -t[:2]\<close> and
  \<open>ray_xy = ray[:2]\<close>.  The product is taken first, then the quotient.
\<close>

definition v_xy_row :: "vec \<Rightarrow> vec \<Rightarrow> npfloat list" where
  "v_xy_row t ray =
     (let x_xy = map uminus (take 2 t);
          ray_xy = take 2 ray;
          d = sum_list (map2 (*) x_xy ray_xy);
          ss = sum_list (map (\<lambda>r. r\<^sup>2) ray_xy)
      in map (\<lambda>r. np_div (Fin (d * r)) (Fin ss)) ray_xy)"

text \<open>\<open>ratios = v_xy / ray_xy\<close>, one row.\<close>

definition ratios_row :: "vec \<Rightarrow> vec \<Rightarrow> npfloat list" where
  "ratios_row t ray = map2 (\<lambda>v r. np_div v (Fin r)) (v_xy_row t ray) (take 2 ray)"

text \<open>
  \<open>np.testing.assert_allclose(actual, desired)\<close> with its defaults \<open>rtol = 1e-7\<close>,
  \<open>atol = 0\<close>, \<open>equal_nan = True\<close>: special values must sit at the same places, finite
  values must satisfy \<open>|actual - desired| \<le> atol + rtol * |desired|\<close>.
\<close>

definition rtol :: real where
  "rtol = 1 / 10 ^ 7"

fun isclose :: "npfloat \<Rightarrow> npfloat \<Rightarrow> bool" where
  "isclose (Fin a) (Fin d) = (\<bar>a - d\<bar> \<le> 0 + rtol * \<bar>d\<bar>)"
| "isclose NaN NaN = True"
| "isclose PInf PInf = True"
| "isclose NInf NInf = True"
| "isclose _ _ = False"

definition assert_allclose :: "npfloat list \<Rightarrow> npfloat list \<Rightarrow> error + unit" where
  "assert_allclose actual desired =
     (if list_all2 isclose actual desired then Inr () else Inl AssertionError)"

text \<open>\<open>np.mean\<close> of a one-dimensional array.\<close>

definition np_mean :: "npfloat list \<Rightarrow> npfloat" where
  "np_mean zs = np_div (foldl np_add (Fin 0) zs) (Fin (real (length zs)))"

text \<open>
  \<open>ts_new = ts; ts_new[:, 2] -= z_height\<close>.  \<open>ts\<close> is a view of \<open>Ts\<close>, so the statement
  writes into \<open>Ts[:, 2, 3]\<close>; the array is returned with that entry of every pose changed.
\<close>

definition recenter_pose :: "npfloat \<Rightarrow> mat \<Rightarrow> npfloat list list" where
  "recenter_pose z T =
     (map (map Fin) T)[2 := (map Fin (T ! 2))[3 := np_sub (Fin (T ! 2 ! 3)) z]]"

definition z_heights :: "mat list \<Rightarrow> npfloat list" where
  "z_heights Ts =
     map2 (\<lambda>ray t. np_add (np_mul (Fin (ray ! 2)) (ratios_row t ray ! 0)) (Fin (t ! 2)))
       (ray_dirs_of Ts) (ts_of Ts)"

text \<open>The cell: the mean height and the array of poses after the in-place update.\<close>

definition cell17 :: "mat list \<Rightarrow> error + npfloat \<times> npfloat list list list" where
  "cell17 Ts =
     (if Ts = [] then Inl IndexError
      else let ratios = map2 (\<lambda>ray t. ratios_row t ray) (ray_dirs_of Ts) (ts_of Ts) in
        case assert_allclose (map (\<lambda>r. r ! 0) ratios) (map (\<lambda>r. r ! 1) ratios) of
          Inl e \<Rightarrow> Inl e
        | Inr _ \<Rightarrow>
            let z_height = np_mean (z_heights Ts)
            in Inr (z_height, map (recenter_pose z_height) Ts))"

text \<open>The mean height alone.\<close>

definition cell17_z_height :: "mat list \<Rightarrow> error + npfloat" where
  "cell17_z_height Ts = (case cell17 Ts of Inl e \<Rightarrow> Inl e | Inr (z, _) \<Rightarrow> Inr z)"

subsection \<open>Cell 20: rescaling\<close>

definition radius :: real where
  "radius = 1"

text \<open>
  \<open>max_x, max_y = radius * cx / fx, radius * cy / fy\<close>: the half-extents of the field of
  view at the distance \<open>radius\<close>.  They are Python numbers, so a zero divisor raises; the
  pair is only formed in \<open>scale_factor\<close>, after the check.
\<close>

definition max_xy :: "real \<Rightarrow> real \<Rightarrow> real \<Rightarrow> real \<Rightarrow> real \<times> real" where
  "max_xy fx fy cx cy = (radius * cx / fx, radius * cy / fy)"

text \<open>\<open>scale_factor = 0.5 / max(max_x, max_y)\<close>, again with a division that can raise.\<close>

definition scale_factor :: "real \<Rightarrow> real \<Rightarrow> real \<Rightarrow> real \<Rightarrow> error + real" where
  "scale_factor fx fy cx cy =
     (if fx = 0 then Inl ZeroDivisionError
      else if fy = 0 then Inl ZeroDivisionError
      else case max_xy fx fy cx cy of (max_x, max_y) \<Rightarrow>
        if max max_x max_y = 0 then Inl ZeroDivisionError
        else Inr (0.5 / max max_x max_y))"

text \<open>
  \<open>ts_new *= scale_factor\<close>: \<open>ts_new\<close> is still the view \<open>Ts[:, :3, 3]\<close>, so the first three
  entries of the last column of every pose are multiplied.
\<close>

definition scale_pose :: "real \<Rightarrow> npfloat list list \<Rightarrow> npfloat list list" where
  "scale_pose sf T =
     map (\<lambda>row. row[3 := np_mul (row ! 3) (Fin sf)]) (take 3 T) @ drop 3 T"

definition cell20 ::
  "real \<Rightarrow> real \<Rightarrow> real \<Rightarrow> real \<Rightarrow> npfloat list list list \<Rightarrow> error + npfloat list list list" where
  "cell20 fx fy cx cy Ts =
     (case scale_factor fx fy cx cy of
        Inl e \<Rightarrow> Inl e
      | Inr sf \<Rightarrow> Inr (map (scale_pose sf) Ts))"

subsection \<open>The rig: two concentric rings\<close>







subsection \<open>The similarity fit\<close>

text \<open>Operations on vectors and matrices with three rows and columns.\<close>

definition vsub :: "vec \<Rightarrow> vec \<Rightarrow> vec" where
  "vsub u v = map2 (-) u v"

definition cross :: "vec \<Rightarrow> vec \<Rightarrow> vec" where
  "cross u v = [u ! 1 * v ! 2 - u ! 2 * v ! 1,
                u ! 2 * v ! 0 - u ! 0 * v ! 2,
                u ! 0 * v ! 1 - u ! 1 * v ! 0]"

definition transpose_mat :: "mat \<Rightarrow> mat" where
  "transpose_mat M = map (column M) [0..<3]"

definition diag3 :: "vec \<Rightarrow> mat" where
  "diag3 d = [[d ! 0, 0, 0], [0, d ! 1, 0], [0, 0, d ! 2]]"

definition det3 :: "mat \<Rightarrow> real" where
  "det3 M = M ! 0 ! 0 * (M ! 1 ! 1 * M ! 2 ! 2 - M ! 1 ! 2 * M ! 2 ! 1)
          - M ! 0 ! 1 * (M ! 1 ! 0 * M ! 2 ! 2 - M ! 1 ! 2 * M ! 2 ! 0)
          + M ! 0 ! 2 * (M ! 1 ! 0 * M ! 2 ! 1 - M ! 1 ! 1 * M ! 2 ! 0)"

definition trace3 :: "mat \<Rightarrow> real" where
  "trace3 M = M ! 0 ! 0 + M ! 1 ! 1 + M ! 2 ! 2"

definition orthogonal3 :: "mat \<Rightarrow> bool" where
  "orthogonal3 M \<longleftrightarrow>
     is_mat3 M \<and> matmul M (transpose_mat M) = identity3 \<and> matmul (transpose_mat M) M = identity3"

definition is_rotation :: "mat \<Rightarrow> bool" where
  "is_rotation R \<longleftrightarrow> orthogonal3 R \<and> det3 R = 1"

text \<open>
  What the library routine \<open>np.linalg.svd\<close> promises for a 3 by 3 matrix \<open>H\<close>: orthogonal
  factors \<open>U\<close> and \<open>Vt\<close>, singular values in decreasing order, none negative, and
  \<open>H = U diag(S) Vt\<close>.
\<close>

definition svd_valid :: "mat \<times> vec \<times> mat \<Rightarrow> mat \<Rightarrow> bool" where
  "svd_valid r H =
     (case r of (U, S, Vt) \<Rightarrow>
        orthogonal3 U \<and> orthogonal3 Vt \<and> length S = 3 \<and>
        S ! 1 \<le> S ! 0 \<and> S ! 2 \<le> S ! 1 \<and> 0 \<le> S ! 2 \<and>
        matmul (matmul U (diag3 S)) Vt = H)"

text \<open>The centroid of a list of points, and the points relative to it.\<close>

definition centroid :: "vec list \<Rightarrow> vec" where
  "centroid P = smul_vec (1 / real (length P)) (foldr vadd P [0, 0, 0])"

definition centered :: "vec list \<Rightarrow> vec list" where
  "centered P = map (\<lambda>p. vsub p (centroid P)) P"

text \<open>The cross-covariance matrix \<open>Pc\<^sup>T Qc\<close> of two lists of points paired by index.\<close>

definition cross_covariance :: "vec list \<Rightarrow> vec list \<Rightarrow> mat" where
  "cross_covariance Pc Qc =
     map (\<lambda>j. map (\<lambda>k. sum_list (map2 (\<lambda>p q. p ! j * q ! k) Pc Qc)) [0..<3]) [0..<3]"

text \<open>Fewer than three points that are not on one line.\<close>

definition insufficient_geometry :: "vec list \<Rightarrow> bool" where
  "insufficient_geometry P \<longleftrightarrow>
     \<not> (\<exists>a \<in> set P. \<exists>b \<in> set P. \<exists>c \<in> set P. cross (vsub b a) (vsub c a) \<noteq> [0, 0, 0])"

text \<open>
  Modelled from the spec: \<open>ICP_transform_with_scale\<close> (\<open>fit_similarity\<close> in the
  specification) belongs to the module \<open>canonicalize_camera_poses\<close>, whose source is not
  part of the notebook.  The definition follows the six steps of section 4.2 of the
  specification for points paired by index; the singular value decomposition is the
  parameter \<open>svd\<close>.  The result is scale, rotation, translation and the aligned points.
\<close>

definition fit_similarity ::
  "(mat \<Rightarrow> mat \<times> vec \<times> mat) \<Rightarrow> vec list \<Rightarrow> vec list \<Rightarrow> error + real \<times> mat \<times> vec \<times> vec list" where
  "fit_similarity svd P Q =
     (if insufficient_geometry P then Inl InsufficientGeometry
      else
        let Pc = centered P;
            Qc = centered Q;
            H = cross_covariance Pc Qc
        in case svd H of (U, S, Vt) \<Rightarrow>
          let V = transpose_mat Vt;
              R = matmul (matmul V (diag3 [1, 1, det3 (matmul V (transpose_mat U))]))
                    (transpose_mat U);
              s = sum_list S / sum_list (map (\<lambda>p. dot p p) Pc);
              t = vsub (centroid Q) (smul_vec s (matvec R (centroid P)))
          in Inr (s, R, t, map (\<lambda>p. vadd (smul_vec s (matvec R p)) t) P))"

text \<open>The sum of squared distances that the fit minimises.\<close>

definition residual :: "real \<Rightarrow> mat \<Rightarrow> vec \<Rightarrow> vec list \<Rightarrow> vec list \<Rightarrow> real" where
  "residual s R t P Q =
     sum_list (map2 (\<lambda>p q. let d = vsub (vadd (smul_vec s (matvec R p)) t) q in dot d d) P Q)"

subsection \<open>Example inputs\<close>

text \<open>A pose without rotation at the position \<open>p\<close>.\<close>

definition pose_at :: "vec \<Rightarrow> mat" where
  "pose_at p = [[1, 0, 0, p ! 0], [0, 1, 0, p ! 1], [0, 0, 1, p ! 2], [0, 0, 0, 1]]"

text \<open>
  Four cameras on a line: the first three follow each other at a twentieth of the largest
  distance, so that neighbours are closer than the threshold and the first and third are not.
\<close>

definition chain :: "vec list" where
  "chain = [[0, 0, 0], [1 / 20, 0, 0], [1 / 10, 0, 0], [1, 0, 0]]"

text \<open>Three cameras within a fiftieth of the largest distance, and a fourth far away.\<close>

definition cluster3 :: "vec list" where
  "cluster3 = [[0, 0, 0], [1 / 100, 0, 0], [1 / 50, 0, 0], [1, 0, 0]]"

text \<open>\<open>n\<close> cameras on a square grid with eight columns and unit spacing.\<close>

definition grid :: "nat \<Rightarrow> vec list" where
  "grid n = map (\<lambda>k. [real (k mod 8), real (k div 8), 0]) [0..<n]"

text \<open>Fifty cameras on the grid, the one with index 27 moved next to the one with index 5.\<close>

definition fifty :: "vec list" where
  "fifty = (grid 50)[27 := [5, 0, 1 / 10]]"

text \<open>A stand-in for the aligner that answers with the identity transform.\<close>

definition ICP_identity :: "vec list \<Rightarrow> vec list \<Rightarrow> error + unit \<times> mat \<times> vec" where
  "ICP_identity P Q = Inr ((), identity3, [0, 0, 0])"

text \<open>
  Two cameras whose rays both pass through the point \<open>(1, 2, 3)\<close>: the first from
  \<open>(3, 1, 5)\<close> along \<open>(2, -1, 2) / 3\<close>, the second from \<open>(2, 4, 5)\<close> along
  \<open>(1, 2, 2) / 3\<close>.  The ray of the second also meets the vertical axis, at height 1.
\<close>

definition cam1 :: mat where
  "cam1 = [[2 / 3, - 1 / 3, 2 / 3, 3],
           [2 / 3, 2 / 3, - 1 / 3, 1],
           [- 1 / 3, 2 / 3, 2 / 3, 5],
           [0, 0, 0, 1]]"

definition cam2 :: mat where
  "cam2 = [[2 / 3, 2 / 3, 1 / 3, 2],
           [- 2 / 3, 1 / 3, 2 / 3, 4],
           [1 / 3, - 2 / 3, 2 / 3, 5],
           [0, 0, 0, 1]]"

text \<open>A camera above the origin that looks straight down.\<close>

definition cam_down :: mat where
  "cam_down = pose_at [0, 0, 5]"

text \<open>A camera whose ray is horizontal and parallel to the y-axis.\<close>

definition cam_side :: mat where
  "cam_side = [[1, 0, 0, 0], [0, 0, 1, 2], [0, - 1, 0, 1], [0, 0, 0, 1]]"



text \<open>
  Four points around the origin, a quarter turn about the z-axis, and a decomposition of the
  cross-covariance matrix that belongs to them for the scale 2.
\<close>

definition square_points :: "vec list" where
  "square_points = [[1, 0, 0], [- 1, 0, 0], [0, 1, 0], [0, - 1, 0]]"

definition quarter_turn :: mat where
  "quarter_turn = [[0, - 1, 0], [1, 0, 0], [0, 0, 1]]"

definition square_svd :: "mat \<Rightarrow> mat \<times> vec \<times> mat" where
  "square_svd H = (identity3, [4, 4, 0], [[0, 1, 0], [- 1, 0, 0], [0, 0, - 1]])"

section \<open>Properties\<close>

subsection \<open>The duplicate filter\<close>

lemma list_remove_distinct:
  "distinct xs \<Longrightarrow> list_remove x xs = (if x \<in> set xs then Inr (filter (\<lambda>y. y \<noteq> x) xs) else Inl ValueError)"
  by (auto simp: list_remove_def distinct_remove1_removeAll removeAll_filter_not_eq intro: filter_cong)

lemma remove_loop_char:
  "distinct xs \<Longrightarrow>
   remove_loop ps xs =
     (if distinct (map snd ps) \<and> snd ` set ps \<subseteq> set xs
      then Inr (filter (\<lambda>x. x \<notin> snd ` set ps) xs) else Inl ValueError)"
proof (induction ps arbitrary: xs)
  case Nil
  then show ?case by simp
next
  case (Cons p ps)
  obtain i j where p: "p = (i, j)" by (cases p)
  show ?case
  proof (cases "j \<in> set xs")
    case False
    then show ?thesis by (simp add: p list_remove_def)
  next
    case True
    let ?ys = "filter (\<lambda>y. y \<noteq> j) xs"
    have d: "distinct ?ys" using Cons.prems by simp
    have step: "remove_loop (p # ps) xs = remove_loop ps ?ys"
      using True Cons.prems by (simp add: p list_remove_distinct)
    have sub: "snd ` set ps \<subseteq> set ?ys \<longleftrightarrow> j \<notin> snd ` set ps \<and> snd ` set ps \<subseteq> set xs"
      by auto
    have flt: "filter (\<lambda>x. x \<notin> snd ` set ps) ?ys = filter (\<lambda>x. x \<notin> snd ` set (p # ps)) xs"
      by (auto simp: p intro: filter_cong)
    show ?thesis
      unfolding step Cons.IH[OF d] sub flt[symmetric]
      using True by (auto simp: p)
  qed
qed

lemma set_duplicates:
  "(i, j) \<in> set (duplicates D) \<longleftrightarrow> i < length D \<and> j < length (D ! i) \<and> np_less (D ! i ! j) (Fin threshold)"
  by (auto simp: duplicates_def)

lemma distinct_concat_pairs:
  "distinct xs \<Longrightarrow> (\<And>i. distinct (g i)) \<Longrightarrow>
   distinct (concat (map (\<lambda>i. map (Pair i) (g i)) xs))"
  by (induction xs) (auto simp: distinct_map inj_on_def)

lemma distinct_duplicates: "distinct (duplicates D)"
  unfolding duplicates_def by (rule distinct_concat_pairs) simp_all

lemma pi_ge_three: "3 \<le> pi"
  using sin_x_le_x[of "pi / 6"] by (simp add: sin_30)

lemma threshold_bounds: "1 / 16 \<le> threshold" "threshold < 1 / 12"
  using pi_ge_three pi_less_4 by (simp_all add: threshold_def)

lemma np_max_nonempty:
  "ts \<noteq> [] \<Longrightarrow> \<exists>m. np_max (pairwise_dists ts) = Inr m"
  by (cases ts) (auto simp: np_max_def pairwise_dists_def split: list.splits)

lemma normalized_dists_Inr:
  assumes "np_max (pairwise_dists ts) = Inr m" "ts \<noteq> []"
  shows "normalized_dists ts =
     Inr (fill_diagonal (map (map (\<lambda>d. np_div (Fin d) (Fin m))) (pairwise_dists ts)) (Fin 1))"
  using assms by (simp add: normalized_dists_def)

lemma normalized_dists_shape:
  assumes "normalized_dists ts = Inr D"
  shows "length D = length ts" "i < length ts \<Longrightarrow> length (D ! i) = length ts"
  using assms
  by (auto simp: normalized_dists_def fill_diagonal_def pairwise_dists_def Let_def
      split: if_splits sum.splits)

lemma normalized_dists_entry:
  assumes "normalized_dists ts = Inr D" "np_max (pairwise_dists ts) = Inr m"
    "i < length ts" "j < length ts"
  shows "D ! i ! j = (if i = j then Fin 1 else np_div (Fin (euclid (ts ! i) (ts ! j))) (Fin m))"
  using assms
  by (auto simp: normalized_dists_def fill_diagonal_def pairwise_dists_def Let_def
      split: if_splits sum.splits)

lemma flagged_iff:
  assumes "np_max (pairwise_dists ts) = Inr m"
  shows "flagged ts i j \<longleftrightarrow>
     i < length ts \<and> j < length ts \<and> i \<noteq> j \<and>
     np_less (np_div (Fin (euclid (ts ! i) (ts ! j))) (Fin m)) (Fin threshold)"
proof (cases "ts = []")
  case True
  then show ?thesis by (simp add: flagged_def normalized_dists_def)
next
  case False
  then obtain D where D: "normalized_dists ts = Inr D"
    using assms by (simp add: normalized_dists_def)
  show ?thesis
    using threshold_bounds
    by (auto simp: flagged_def D set_duplicates normalized_dists_shape[OF D]
        normalized_dists_entry[OF D assms] split: if_splits)
qed

lemma set_lower_pairs:
  assumes "normalized_dists ts = Inr D"
  shows "set (filter (\<lambda>(i, j). i < j) (duplicates D)) = {(i, j). i < j \<and> flagged ts i j}"
  using assms by (auto simp: flagged_def)

lemma flagged_bound: "flagged ts i j \<Longrightarrow> i < length ts \<and> j < length ts"
  by (auto simp: flagged_def set_duplicates normalized_dists_shape split: sum.splits)

lemma remove_duplicates_char:
  assumes "ts \<noteq> []"
  shows "remove_duplicates ts =
     (if \<forall>i1 i2 j. i1 < j \<and> i2 < j \<and> flagged ts i1 j \<and> flagged ts i2 j \<longrightarrow> i1 = i2
      then Inr (filter (\<lambda>k. \<not> (\<exists>i<k. flagged ts i k)) [0..<length ts])
      else Inl ValueError)"
proof -
  obtain m where m: "np_max (pairwise_dists ts) = Inr m"
    using np_max_nonempty[OF assms] by blast
  obtain D where D: "normalized_dists ts = Inr D"
    using normalized_dists_Inr[OF m assms] by blast
  let ?ps = "filter (\<lambda>(i, j). i < j) (duplicates D)"
  have S: "set ?ps = {(i, j). i < j \<and> flagged ts i j}"
    by (rule set_lower_pairs[OF D])
  have dist: "distinct (map snd ?ps) \<longleftrightarrow>
      (\<forall>i1 i2 j. i1 < j \<and> i2 < j \<and> flagged ts i1 j \<and> flagged ts i2 j \<longrightarrow> i1 = i2)"
    unfolding distinct_map S using distinct_duplicates[of D]
    by (auto simp: inj_on_def)
  have sub: "snd ` set ?ps \<subseteq> set [0..<length ts]"
    unfolding S using flagged_bound by auto
  have mem: "\<And>k. k \<in> snd ` set ?ps \<longleftrightarrow> (\<exists>i<k. flagged ts i k)"
    unfolding S by force
  have "remove_duplicates ts = remove_loop ?ps [0..<length ts]"
    by (simp add: remove_duplicates_def D to_take_of_def)
  also have "\<dots> = (if distinct (map snd ?ps) \<and> snd ` set ?ps \<subseteq> set [0..<length ts]
      then Inr (filter (\<lambda>x. x \<notin> snd ` set ?ps) [0..<length ts]) else Inl ValueError)"
    by (rule remove_loop_char) simp
  finally show ?thesis
    unfolding dist mem using sub by simp
qed

lemma np_max_Max:
  assumes "np_max D = Inr m"
  shows "m = Max (set (concat D))" "concat D \<noteq> []"
proof -
  obtain x xs where c: "concat D = x # xs" and m: "m = fold max xs x"
    using assms by (auto simp: np_max_def split: list.splits)
  show "m = Max (set (concat D))"
    unfolding c m using Max.set_eq_fold[of x xs] by simp
  show "concat D \<noteq> []" by (simp add: c)
qed

lemma np_max_ge:
  assumes "np_max D = Inr m" "i < length D" "j < length (D ! i)"
  shows "D ! i ! j \<le> m"
proof -
  have "D ! i ! j \<in> set (concat D)"
    using assms(2,3) by (auto intro!: bexI[of _ "D ! i"])
  then show ?thesis unfolding np_max_Max(1)[OF assms(1)] by simp
qed

lemma np_max_le:
  assumes "np_max D = Inr m" "\<And>i j. i < length D \<Longrightarrow> j < length (D ! i) \<Longrightarrow> D ! i ! j \<le> c"
  shows "m \<le> c"
proof -
  have "\<forall>d \<in> set (concat D). d \<le> c"
    using assms(2) by (auto simp: in_set_conv_nth)
  moreover have "set (concat D) \<noteq> {}" using np_max_Max(2)[OF assms(1)] by simp
  ultimately show ?thesis unfolding np_max_Max(1)[OF assms(1)] by simp
qed

lemma pairwise_dists_nth:
  "i < length ts \<Longrightarrow> j < length ts \<Longrightarrow> pairwise_dists ts ! i ! j = euclid (ts ! i) (ts ! j)"
  "length (pairwise_dists ts) = length ts"
  "i < length ts \<Longrightarrow> length (pairwise_dists ts ! i) = length ts"
  by (simp_all add: pairwise_dists_def)

lemma well_separated_not_flagged:
  assumes sep: "\<And>i j. i < length ts \<Longrightarrow> j < length ts \<Longrightarrow> i \<noteq> j \<Longrightarrow> 1 \<le> euclid (ts ! i) (ts ! j)"
    and bound: "\<And>i j. i < length ts \<Longrightarrow> j < length ts \<Longrightarrow> euclid (ts ! i) (ts ! j) \<le> 12"
  shows "\<not> flagged ts i j"
proof
  assume f: "flagged ts i j"
  then have ij: "i < length ts" "j < length ts" using flagged_bound by blast+
  then have ne: "ts \<noteq> []" by auto
  obtain m where m: "np_max (pairwise_dists ts) = Inr m"
    using np_max_nonempty[OF ne] by blast
  have m12: "m \<le> 12"
    by (rule np_max_le[OF m]) (simp add: pairwise_dists_nth bound)
  from f have neq: "i \<noteq> j"
    and less: "np_less (np_div (Fin (euclid (ts ! i) (ts ! j))) (Fin m)) (Fin threshold)"
    unfolding flagged_iff[OF m] by auto
  have d1: "1 \<le> euclid (ts ! i) (ts ! j)" using sep ij neq by blast
  have dm: "euclid (ts ! i) (ts ! j) \<le> m"
    using np_max_ge[OF m, of i j] ij by (simp add: pairwise_dists_nth)
  then have mpos: "0 < m" using d1 by linarith
  from less mpos have "euclid (ts ! i) (ts ! j) / m < threshold" by simp
  then have "euclid (ts ! i) (ts ! j) < threshold * m"
    using mpos by (simp add: field_simps)
  also have "\<dots> \<le> (1 / 12) * 12"
    using threshold_bounds(2) m12 mpos by (intro mult_mono) auto
  finally show False using d1 by simp
qed

lemma no_flag_keeps_all:
  assumes "ts \<noteq> []" "\<And>i j. \<not> flagged ts i j"
  shows "remove_duplicates ts = Inr [0..<length ts]"
  unfolding remove_duplicates_char[OF assms(1)] using assms(2) by simp

lemma euclid_x_axis: "euclid [a, 0, 0] [b, 0, 0] = \<bar>a - b\<bar>"
  by (simp add: euclid_def)

lemma euclid3: "euclid [a, b, c] [a', b', c'] = sqrt ((a - a')\<^sup>2 + (b - b')\<^sup>2 + (c - c')\<^sup>2)"
  by (simp add: euclid_def)

lemma grid_sep:
  assumes "i \<noteq> j"
  shows "1 \<le> euclid [real (i mod 8), real (i div 8), 0] [real (j mod 8), real (j div 8), 0]"
proof -
  let ?a = "int (i mod 8) - int (j mod 8)" and ?b = "int (i div 8) - int (j div 8)"
  have "i = 8 * (i div 8) + i mod 8" "j = 8 * (j div 8) + j mod 8" by simp_all
  then have "?a \<noteq> 0 \<or> ?b \<noteq> 0" using assms by (metis diff_eq_eq add_0 of_nat_eq_iff)
  then have "?a\<^sup>2 + ?b\<^sup>2 \<noteq> 0" by simp
  moreover have "0 \<le> ?a\<^sup>2 + ?b\<^sup>2" by simp
  ultimately have "1 \<le> ?a\<^sup>2 + ?b\<^sup>2" by linarith
  then have "(1::real) \<le> real_of_int (?a\<^sup>2 + ?b\<^sup>2)" by linarith
  also have "\<dots> = (real (i mod 8) - real (j mod 8))\<^sup>2 + (real (i div 8) - real (j div 8))\<^sup>2"
    by simp
  finally show ?thesis
    unfolding euclid3 by (intro real_le_rsqrt) simp
qed

lemma grid_bound:
  assumes "i < 56" "j < 56"
  shows "euclid [real (i mod 8), real (i div 8), 0] [real (j mod 8), real (j div 8), 0] \<le> 12"
proof -
  have "i mod 8 < 8" "j mod 8 < 8" by simp_all
  then have a: "\<bar>real (i mod 8) - real (j mod 8)\<bar> \<le> 7" by linarith
  have b: "\<bar>real (i div 8) - real (j div 8)\<bar> \<le> 7"
  proof -
    have "i div 8 < 7" "j div 8 < 7" using assms by auto
    then show ?thesis by linarith
  qed
  have "(real (i mod 8) - real (j mod 8))\<^sup>2 \<le> 7\<^sup>2" "(real (i div 8) - real (j div 8))\<^sup>2 \<le> 7\<^sup>2"
    using a b power2_le_iff_abs_le[of "7::real"] by auto
  then show ?thesis
    unfolding euclid3 by (intro real_le_lsqrt) auto
qed

lemma chain_max: "np_max (pairwise_dists chain) = Inr 1"
  by (simp add: chain_def np_max_def pairwise_dists_def euclid_x_axis)

lemma upt_4: "[0..<4] = [0, 1, 2, 3]"
  by (simp add: upt_rec)

lemma chain_dists:
  "normalized_dists chain =
     Inr [[Fin 1, Fin (1 / 20), Fin (1 / 10), Fin 1],
          [Fin (1 / 20), Fin 1, Fin (1 / 20), Fin (19 / 20)],
          [Fin (1 / 10), Fin (1 / 20), Fin 1, Fin (9 / 10)],
          [Fin 1, Fin (19 / 20), Fin (9 / 10), Fin 1]]"
  by (simp add: normalized_dists_def chain_max Let_def fill_diagonal_def upt_4)
     (simp add: chain_def pairwise_dists_def euclid_x_axis)

lemma chain_result: "remove_duplicates chain = Inr [0, 3]"
  using threshold_bounds
  by (simp add: remove_duplicates_def chain_dists to_take_of_def duplicates_def upt_4
      list_remove_def) (simp add: chain_def)

lemma euclid_nonneg: "0 \<le> euclid p q"
  unfolding euclid_def by (intro real_sqrt_ge_zero sum_list_nonneg) auto

lemma flagged_real:
  assumes "np_max (pairwise_dists ts) = Inr m"
  shows "flagged ts i j \<longleftrightarrow>
     i < length ts \<and> j < length ts \<and> i \<noteq> j \<and> m \<noteq> 0 \<and>
     euclid (ts ! i) (ts ! j) / m < pi * (15 / 360) / 2"
  unfolding flagged_iff[OF assms] threshold_def[symmetric]
  using euclid_nonneg[of "ts ! i" "ts ! j"] by auto

lemma far_not_flagged:
  assumes bound: "\<And>a b. a < length ts \<Longrightarrow> b < length ts \<Longrightarrow> euclid (ts ! a) (ts ! b) \<le> 12"
    and far: "1 \<le> euclid (ts ! i) (ts ! j)"
  shows "\<not> flagged ts i j"
proof
  assume f: "flagged ts i j"
  then have ij: "i < length ts" "j < length ts" using flagged_bound by blast+
  then have ne: "ts \<noteq> []" by auto
  obtain m where m: "np_max (pairwise_dists ts) = Inr m"
    using np_max_nonempty[OF ne] by blast
  have m12: "m \<le> 12"
    by (rule np_max_le[OF m]) (simp add: pairwise_dists_nth bound)
  from f have less: "np_less (np_div (Fin (euclid (ts ! i) (ts ! j))) (Fin m)) (Fin threshold)"
    unfolding flagged_iff[OF m] by auto
  have dm: "euclid (ts ! i) (ts ! j) \<le> m"
    using np_max_ge[OF m, of i j] ij by (simp add: pairwise_dists_nth)
  then have mpos: "0 < m" using far by linarith
  from less mpos have "euclid (ts ! i) (ts ! j) / m < threshold" by simp
  then have "euclid (ts ! i) (ts ! j) < threshold * m"
    using mpos by (simp add: field_simps)
  also have "\<dots> \<le> (1 / 12) * 12"
    using threshold_bounds(2) m12 mpos by (intro mult_mono) auto
  finally show False using far by simp
qed

lemma close_flagged:
  assumes ij: "i < length ts" "j < length ts" "i \<noteq> j"
    and close: "euclid (ts ! i) (ts ! j) \<le> 1 / 10"
    and wide: "a < length ts" "b < length ts" "2 \<le> euclid (ts ! a) (ts ! b)"
  shows "flagged ts i j"
proof -
  have ne: "ts \<noteq> []" using ij by auto
  obtain m where m: "np_max (pairwise_dists ts) = Inr m"
    using np_max_nonempty[OF ne] by blast
  have "euclid (ts ! a) (ts ! b) \<le> m"
    using np_max_ge[OF m, of a b] wide by (simp add: pairwise_dists_nth)
  then have m2: "2 \<le> m" using wide(3) by linarith
  have "euclid (ts ! i) (ts ! j) / m \<le> (1 / 10) / 2"
    using close m2 euclid_nonneg[of "ts ! i" "ts ! j"] by (intro frac_le) auto
  also have "\<dots> < threshold" using threshold_bounds(1) by simp
  finally show ?thesis
    unfolding flagged_iff[OF m] using ij m2 by simp
qed

lemma remove_duplicates_Inr:
  assumes "remove_duplicates ts = Inr out"
  shows "out = filter (\<lambda>k. \<not> (\<exists>i<k. flagged ts i k)) [0..<length ts]"
proof -
  have "ts \<noteq> []" using assms by (auto simp: remove_duplicates_def normalized_dists_def)
  from remove_duplicates_char[OF this] assms show ?thesis by (simp split: if_splits)
qed

lemma remove_duplicates_raises:
  assumes "i1 < j" "i2 < j" "i1 \<noteq> i2" "flagged ts i1 j" "flagged ts i2 j"
  shows "remove_duplicates ts = Inl ValueError"
proof -
  have "ts \<noteq> []" using assms(4) flagged_bound by fastforce
  from remove_duplicates_char[OF this] assms show ?thesis by auto
qed

text \<open>
  C10.  When some index is flagged as a duplicate of two distinct lower indices, the removal
  loop asks the list to remove that index a second time and the filter ends with
  \<open>ValueError\<close>.  Hence the filter returns a list only when no three poses are mutually
  flagged.
\<close>

theorem duplicate_cluster_raises:
  "(\<forall>i1 i2 j. i1 < j \<and> i2 < j \<and> i1 \<noteq> i2 \<and> flagged ts i1 j \<and> flagged ts i2 j
      \<longrightarrow> remove_duplicates ts = Inl ValueError) \<and>
   ((\<exists>out. remove_duplicates ts = Inr out) \<longrightarrow>
      \<not> (\<exists>a b c. a < b \<and> b < c \<and> flagged ts a b \<and> flagged ts a c \<and> flagged ts b c))"
proof (intro conjI allI impI)
  fix i1 i2 j
  assume "i1 < j \<and> i2 < j \<and> i1 \<noteq> i2 \<and> flagged ts i1 j \<and> flagged ts i2 j"
  then show "remove_duplicates ts = Inl ValueError"
    using remove_duplicates_raises by blast
next
  assume ex: "\<exists>out. remove_duplicates ts = Inr out"
  show "\<not> (\<exists>a b c. a < b \<and> b < c \<and> flagged ts a b \<and> flagged ts a c \<and> flagged ts b c)"
  proof
    assume "\<exists>a b c. a < b \<and> b < c \<and> flagged ts a b \<and> flagged ts a c \<and> flagged ts b c"
    then obtain a b c where "a < b" "b < c" "flagged ts a c" "flagged ts b c" by blast
    then have "remove_duplicates ts = Inl ValueError"
      using remove_duplicates_raises[of a c b ts] by simp
    with ex show False by simp
  qed
qed

lemma cluster3_max: "np_max (pairwise_dists cluster3) = Inr 1"
  by (simp add: cluster3_def np_max_def pairwise_dists_def euclid_x_axis)

lemma cluster3_flagged: "flagged cluster3 0 2" "flagged cluster3 1 2"
  unfolding flagged_iff[OF cluster3_max] using threshold_bounds
  by (simp_all add: cluster3_def euclid_x_axis)

theorem duplicate_cluster_raises_witness:
  "remove_duplicates cluster3 = Inl ValueError \<and>
   remove_duplicates chain = Inr [0, 3] \<and>
   \<not> (\<exists>a b c. a < b \<and> b < c \<and> flagged chain a b \<and> flagged chain a c \<and> flagged chain b c)"
proof -
  have "(0::nat) < 2 \<and> (1::nat) < 2 \<and> (0::nat) \<noteq> 1 \<and> flagged cluster3 0 2 \<and> flagged cluster3 1 2"
    using cluster3_flagged by simp
  then have "remove_duplicates cluster3 = Inl ValueError"
    using duplicate_cluster_raises[of cluster3] by blast
  moreover have "remove_duplicates chain = Inr [0, 3]" by (rule chain_result)
  ultimately show ?thesis
    using duplicate_cluster_raises[of chain] by blast
qed

lemma upt_50_split: "[0..<50] = [0..<27] @ 27 # [28..<50]"
proof -
  have "[0..<27 + 23] = [0..<27] @ [27..<27 + 23]" by (rule upt_add_eq_append) simp
  moreover have "(27::nat) + 23 = 50" by simp
  ultimately have s1: "[0..<50] = [0..<27] @ [27..<50]" by (simp only:)
  have s2: "[27..<50] = 27 # [Suc 27..<50]" by (rule upt_conv_Cons) simp
  have s3: "Suc 27 = 28" by simp
  show ?thesis unfolding s1 s2 s3 ..
qed

lemma filter_out_27: "filter (\<lambda>k. k \<noteq> 27) [0..<50] = [0..<27] @ [28..<50]"
proof -
  have a: "filter (\<lambda>k. k \<noteq> 27) [0..<27] = [0..<27]"
    by (rule filter_True) (simp only: set_upt, simp)
  have b: "filter (\<lambda>k. k \<noteq> 27) [28..<50] = [28..<50]"
    by (rule filter_True) (simp only: set_upt, simp)
  show ?thesis
    unfolding upt_50_split by (simp only: filter_append filter.simps a b) simp
qed

lemma only_5_27:
  assumes len: "length ts = 50"
    and fl: "\<And>i j. flagged ts i j \<longleftrightarrow> (i = 5 \<and> j = 27) \<or> (i = 27 \<and> j = 5)"
  shows "remove_duplicates ts = Inr ([0..<27] @ [28..<50])"
proof -
  have ne: "ts \<noteq> []" using len by auto
  have low: "(\<exists>i<k. flagged ts i k) \<longleftrightarrow> k = 27" for k
    unfolding fl by auto
  have uniq: "\<forall>i1 i2 j. i1 < j \<and> i2 < j \<and> flagged ts i1 j \<and> flagged ts i2 j \<longrightarrow> i1 = i2"
    unfolding fl by auto
  have "remove_duplicates ts = Inr (filter (\<lambda>k. \<not> (\<exists>i<k. flagged ts i k)) [0..<length ts])"
    by (rule trans[OF remove_duplicates_char[OF ne] if_P[OF uniq]])
  then show ?thesis
    unfolding low len filter_out_27 .
qed

lemma fifty_nth:
  "i < 50 \<Longrightarrow> fifty ! i = (if i = 27 then [5, 0, 1 / 10] else [real (i mod 8), real (i div 8), 0])"
  "length fifty = 50"
  by (simp_all add: fifty_def grid_def nth_list_update)

lemma grid_sep_lifted:
  assumes "j \<noteq> 5"
  shows "1 \<le> euclid [5, 0, 1 / 10] [real (j mod 8), real (j div 8), 0]"
proof -
  have "(1::real) \<le> (euclid [real (5 mod 8), real (5 div 8), 0] [real (j mod 8), real (j div 8), 0])\<^sup>2"
    using grid_sep[of 5 j] assms by (simp add: euclid_nonneg)
  also have "\<dots> \<le> (5 - real (j mod 8))\<^sup>2 + (0 - real (j div 8))\<^sup>2 + (1 / 10 - 0)\<^sup>2"
    unfolding euclid3 by (simp add: power2_eq_square)
  finally show ?thesis
    unfolding euclid3 by (intro real_le_rsqrt) simp
qed

lemma euclid_sym: "euclid p q = euclid q p"
proof -
  have "map2 (\<lambda>a b. (a - b)\<^sup>2) p q = map2 (\<lambda>a b. (a - b)\<^sup>2) q p"
    by (induction p q rule: list_induct2') (simp_all add: power2_commute)
  then show ?thesis by (simp add: euclid_def)
qed

lemma euclid_self: "euclid p p = 0"
proof -
  have "map2 (\<lambda>a b. (a - b)\<^sup>2) p p = map (\<lambda>a. 0) p"
    by (induction p) simp_all
  then show ?thesis by (simp add: euclid_def)
qed

lemma flagged_irrefl: "\<not> flagged ts i i"
proof (cases "ts = []")
  case True
  then show ?thesis by (simp add: flagged_def normalized_dists_def)
next
  case False
  then obtain m where "np_max (pairwise_dists ts) = Inr m"
    using np_max_nonempty by blast
  then show ?thesis by (simp add: flagged_iff)
qed

lemma fifty_bound:
  assumes "i < 50" "j < 50"
  shows "euclid (fifty ! i) (fifty ! j) \<le> 12"
proof -
  have l: "euclid [5, 0, 1 / 10] [real (b mod 8), real (b div 8), 0] \<le> 12" if "b < 50" for b
  proof -
    have "b mod 8 < 8" "b div 8 < 7" using that by auto
    then have "\<bar>5 - real (b mod 8)\<bar> \<le> 7" "\<bar>0 - real (b div 8)\<bar> \<le> 7" by linarith+
    then have "(5 - real (b mod 8))\<^sup>2 \<le> 7\<^sup>2" "(0 - real (b div 8))\<^sup>2 \<le> 7\<^sup>2"
      using power2_le_iff_abs_le[of "7::real"] by auto
    then show ?thesis
      unfolding euclid3 by (intro real_le_lsqrt) (auto simp: power2_eq_square)
  qed
  consider "i = 27" "j = 27" | "i = 27" "j \<noteq> 27" | "i \<noteq> 27" "j = 27" | "i \<noteq> 27" "j \<noteq> 27"
    by blast
  then show ?thesis
  proof cases
    case 1
    then show ?thesis by (simp add: euclid_self)
  next
    case 2
    then show ?thesis using l[of j] assms by (simp add: fifty_nth)
  next
    case 3
    then show ?thesis using l[of i] assms euclid_sym[of "fifty ! i" "fifty ! j"]
      by (simp add: fifty_nth)
  next
    case 4
    then show ?thesis using grid_bound[of i j] assms by (simp add: fifty_nth)
  qed
qed

lemma fifty_far:
  assumes "i < 50" "j < 50" "i \<noteq> j" "\<not> ((i = 5 \<and> j = 27) \<or> (i = 27 \<and> j = 5))"
  shows "1 \<le> euclid (fifty ! i) (fifty ! j)"
proof -
  consider "i = 27" "j \<noteq> 27" | "i \<noteq> 27" "j = 27" | "i \<noteq> 27" "j \<noteq> 27"
    using assms(3) by blast
  then show ?thesis
  proof cases
    case 1
    then show ?thesis using grid_sep_lifted[of j] assms by (simp add: fifty_nth)
  next
    case 2
    then show ?thesis
      using grid_sep_lifted[of i] assms euclid_sym[of "fifty ! i" "fifty ! j"]
      by (simp add: fifty_nth)
  next
    case 3
    then show ?thesis using grid_sep[of i j] assms by (simp add: fifty_nth)
  qed
qed

lemma fifty_flagged: "flagged fifty i j \<longleftrightarrow> (i = 5 \<and> j = 27) \<or> (i = 27 \<and> j = 5)"
proof (cases "(i = 5 \<and> j = 27) \<or> (i = 27 \<and> j = 5)")
  case True
  have w: "2 \<le> euclid (fifty ! 0) (fifty ! 7)"
    by (simp add: fifty_nth euclid3)
  have c: "euclid (fifty ! 5) (fifty ! 27) \<le> 1 / 10"
    by (simp add: fifty_nth euclid3 real_sqrt_divide)
  then have c': "euclid (fifty ! 27) (fifty ! 5) \<le> 1 / 10"
    by (simp add: euclid_sym)
  have "flagged fifty 5 27"
    by (rule close_flagged[OF _ _ _ c _ _ w]) (simp_all add: fifty_nth(2))
  moreover have "flagged fifty 27 5"
    by (rule close_flagged[OF _ _ _ c' _ _ w]) (simp_all add: fifty_nth(2))
  ultimately show ?thesis using True by auto
next
  case False
  have "\<not> flagged fifty i j"
  proof (cases "i < 50 \<and> j < 50 \<and> i \<noteq> j")
    case False
    then show ?thesis
      using flagged_bound[of fifty i j] flagged_irrefl[of fifty i] by (auto simp: fifty_nth(2))
  next
    case ij: True
    have far: "1 \<le> euclid (fifty ! i) (fifty ! j)"
      using fifty_far ij False by blast
    show ?thesis
      by (rule far_not_flagged[OF _ far]) (simp add: fifty_nth(2) fifty_bound)
  qed
  with False show ?thesis by simp
qed

text \<open>
  C2 (as amended).  A pair of distinct poses is flagged exactly when its distance, divided
  by the largest entry of the distance matrix, is below \<open>pi * (15 / 360) / 2\<close>; the diagonal
  is never flagged, and nothing is when the largest entry is zero.  When the removal loop
  returns, the kept indices are, in increasing order, those that are not the higher index of
  a flagged pair: the higher index of every flagged pair is dropped, and the lower one is kept
  unless it is the higher index of another flagged pair.  With fifty poses of which only 5
  and 27 are flagged, index 27 is dropped and 49 indices remain.
\<close>

theorem duplicate_filter:
  "(\<forall>m. np_max (pairwise_dists ts) = Inr m \<longrightarrow>
      (\<forall>i j. flagged ts i j \<longleftrightarrow>
         i < length ts \<and> j < length ts \<and> i \<noteq> j \<and> m \<noteq> 0 \<and>
         euclid (ts ! i) (ts ! j) / m < pi * (15 / 360) / 2)) \<and>
   (\<forall>out. remove_duplicates ts = Inr out \<longrightarrow>
      out = filter (\<lambda>k. \<not> (\<exists>i<k. flagged ts i k)) [0..<length ts]) \<and>
   (length ts = 50 \<and> (\<forall>i j. flagged ts i j \<longleftrightarrow> (i = 5 \<and> j = 27) \<or> (i = 27 \<and> j = 5)) \<longrightarrow>
      remove_duplicates ts = Inr ([0..<27] @ [28..<50]) \<and>
      27 \<notin> set ([0..<27] @ [28..<50]) \<and> length ([0..<27] @ [28..<50]) = 49)"
proof (intro conjI allI impI)
  fix m i j
  assume "np_max (pairwise_dists ts) = Inr m"
  then show "flagged ts i j \<longleftrightarrow>
         i < length ts \<and> j < length ts \<and> i \<noteq> j \<and> m \<noteq> 0 \<and>
         euclid (ts ! i) (ts ! j) / m < pi * (15 / 360) / 2"
    by (rule flagged_real)
next
  fix out
  assume "remove_duplicates ts = Inr out"
  then show "out = filter (\<lambda>k. \<not> (\<exists>i<k. flagged ts i k)) [0..<length ts]"
    by (rule remove_duplicates_Inr)
next
  assume a: "length ts = 50 \<and> (\<forall>i j. flagged ts i j \<longleftrightarrow> (i = 5 \<and> j = 27) \<or> (i = 27 \<and> j = 5))"
  then show "remove_duplicates ts = Inr ([0..<27] @ [28..<50])"
    by (intro only_5_27) blast+
next
  show "27 \<notin> set ([0..<27] @ [28..<50])" by (simp only: set_append set_upt) simp
next
  show "length ([0..<27] @ [28..<50]) = 49" by (simp only: length_append length_upt)
qed

theorem duplicate_filter_witness:
  "flagged chain 0 1 \<and>
   remove_duplicates chain = Inr (filter (\<lambda>k. \<not> (\<exists>i<k. flagged chain i k)) [0..<length chain]) \<and>
   remove_duplicates fifty = Inr ([0..<27] @ [28..<50])"
proof -
  have "euclid (chain ! 0) (chain ! 1) / 1 < pi * (15 / 360) / 2"
    using pi_ge_three by (simp add: chain_def euclid_x_axis)
  then have "flagged chain 0 1"
    using duplicate_filter[of chain] chain_max by (simp add: chain_def)
  moreover have "remove_duplicates chain =
      Inr (filter (\<lambda>k. \<not> (\<exists>i<k. flagged chain i k)) [0..<length chain])"
    using duplicate_filter[of chain] chain_result by simp
  moreover have "remove_duplicates fifty = Inr ([0..<27] @ [28..<50])"
    using duplicate_filter[of fifty] fifty_flagged fifty_nth(2) by blast
  ultimately show ?thesis by blast
qed

theorem duplicate_filter_counterexample:
  "flagged chain 1 2 \<and> (1::nat) < 2 \<and> remove_duplicates chain = Inr [0, 3] \<and> (1::nat) \<notin> set [0, 3]"
proof -
  have "flagged chain 1 2"
    unfolding flagged_iff[OF chain_max] using threshold_bounds
    by (simp add: chain_def euclid_x_axis)
  then show ?thesis by (simp add: chain_result)
qed

subsection \<open>The cardinality check and the reference ring\<close>

lemma remove_duplicates_split:
  assumes "remove_duplicates ts = Inr to_take"
  obtains D where "normalized_dists ts = Inr D" "to_take_of (length ts) D = Inr to_take"
  using assms by (auto simp: remove_duplicates_def split: sum.splits)

lemma ts_of_pose_at: "\<forall>p \<in> set ps. length p = 3 \<Longrightarrow> ts_of (map pose_at ps) = ps"
proof (induction ps)
  case Nil
  then show ?case by (simp add: ts_of_def)
next
  case (Cons p ps)
  then have "length p = 3" by simp
  then obtain a b c where "p = [a, b, c]"
    by (auto simp: numeral_3_eq_3 length_Suc_conv)
  with Cons show ?case by (simp add: ts_of_def trans_col_def pose_at_def)
qed

lemma grid_lengths: "\<forall>p \<in> set (grid n). length p = 3"
  by (auto simp: grid_def)

lemma chain_lengths: "\<forall>p \<in> set chain. length p = 3"
  by (simp add: chain_def)

lemma grid48: "remove_duplicates (grid 48) = Inr [0..<48]"
proof -
  have "remove_duplicates (grid 48) = Inr [0..<length (grid 48)]"
  proof (rule no_flag_keeps_all)
    show "grid 48 \<noteq> []" by (simp add: grid_def)
    show "\<not> flagged (grid 48) i j" for i j
      by (rule well_separated_not_flagged) (simp_all add: grid_def grid_sep grid_bound)
  qed
  then show ?thesis by (simp add: grid_def)
qed

text \<open>
  C3.  When the number of indices left by the duplicate removal is not 48, the pipeline ends
  with the assertion error whatever the aligner is, so the aligner is not reached; when it
  is 48, the pipeline goes on to call the aligner on the big circle and the reference ring
  and applies what it returns.
\<close>

theorem cardinality_check:
  "remove_duplicates (ts_of Ts) = Inr to_take \<Longrightarrow>
   (length to_take \<noteq> 48 \<longrightarrow> canonicalize ICP Ts = Inl AssertionError) \<and>
   (length to_take = 48 \<longrightarrow>
      (\<exists>D. normalized_dists (ts_of Ts) = Inr D \<and>
           canonicalize ICP Ts =
             (case ICP (map (\<lambda>i. ts_of Ts ! i) (big_circle_of D to_take)) expected of
                Inl e \<Rightarrow> Inl e
              | Inr (_, sR, t) \<Rightarrow> Inr (cell10 sR t Ts))))"
proof -
  assume "remove_duplicates (ts_of Ts) = Inr to_take"
  then obtain D where D: "normalized_dists (ts_of Ts) = Inr D"
    and tt: "to_take_of (length (ts_of Ts)) D = Inr to_take"
    by (rule remove_duplicates_split)
  show ?thesis
    using D tt by (auto simp: canonicalize_def cell9_def)
qed

theorem cardinality_check_witness:
  "canonicalize ICP_identity (map pose_at chain) = Inl AssertionError \<and>
   canonicalize ICP_identity (map pose_at (grid 48))
     = Inr (cell10 identity3 [0, 0, 0] (map pose_at (grid 48)))"
proof -
  have c: "remove_duplicates (ts_of (map pose_at chain)) = Inr [0, 3]"
    by (simp add: ts_of_pose_at[OF chain_lengths] chain_result)
  have g: "remove_duplicates (ts_of (map pose_at (grid 48))) = Inr [0..<48]"
    by (simp add: ts_of_pose_at[OF grid_lengths] grid48)
  have "canonicalize ICP_identity (map pose_at chain) = Inl AssertionError"
    using cardinality_check[OF c, of ICP_identity] by simp
  moreover have "canonicalize ICP_identity (map pose_at (grid 48))
     = Inr (cell10 identity3 [0, 0, 0] (map pose_at (grid 48)))"
  proof -
    have "length [0..<48] = 48" by simp
    with cardinality_check[OF g, of ICP_identity]
    obtain D where "canonicalize ICP_identity (map pose_at (grid 48)) =
             (case ICP_identity (map (\<lambda>i. ts_of (map pose_at (grid 48)) ! i)
                      (big_circle_of D [0..<48])) expected of
                Inl e \<Rightarrow> Inl e
              | Inr (_, sR, t) \<Rightarrow> Inr (cell10 sR t (map pose_at (grid 48))))"
      by blast
    then show ?thesis by (simp add: ICP_identity_def)
  qed
  ultimately show ?thesis by blast
qed

lemma arange_ring: "arange 0 360 15 = map (\<lambda>k. 15 * int k) [0..<24]"
  by (simp add: arange_def)

lemma length_theta: "length theta = 24"
  by (simp add: theta_def arange_ring)

lemma theta_nth: "k < 24 \<Longrightarrow> theta ! k = - (real k * (15 * pi / 180))"
  by (simp add: theta_def arange_ring)

lemma expected_nth: "k < 24 \<Longrightarrow> expected ! k = [cos (theta ! k), sin (theta ! k), 0]"
  by (simp add: expected_def length_theta)

lemma cell9_continues:
  "to_take_of (length ts) D = Inr to_take \<Longrightarrow> length to_take = 48 \<Longrightarrow>
   cell9 ICP ts D = ICP (map (\<lambda>i. ts ! i) (big_circle_of D to_take)) expected"
  by (simp add: cell9_def)

text \<open>
  C9.  The reference ring has 24 points; point \<open>k\<close> is \<open>(cos \<theta>, sin \<theta>, 0)\<close> for the angle
  \<open>\<theta> = - (k * 15 degrees)\<close>, so it lies on the unit circle of the XY-plane around the origin,
  starts at angle 0 and runs clockwise.  It is the second argument of the aligner whenever
  the cell reaches the call.
\<close>

theorem reference_ring:
  "length expected = 24 \<and>
   (\<forall>k<24. theta ! k = - (real k * (15 * pi / 180)) \<and>
            expected ! k = [cos (theta ! k), sin (theta ! k), 0] \<and>
            (expected ! k ! 0)\<^sup>2 + (expected ! k ! 1)\<^sup>2 = 1) \<and>
   (\<forall>ICP ts D to_take. to_take_of (length ts) D = Inr to_take \<and> length to_take = 48 \<longrightarrow>
      cell9 ICP ts D = ICP (map (\<lambda>i. ts ! i) (big_circle_of D to_take)) expected)"
  by (simp add: expected_nth theta_nth cell9_continues) (simp add: expected_def length_theta)

theorem reference_ring_witness:
  "expected ! 1 = [cos (- (pi / 12)), sin (- (pi / 12)), 0] \<and>
   (\<exists>D. normalized_dists (grid 48) = Inr D \<and>
        cell9 ICP_identity (grid 48) D = Inr ((), identity3, [0, 0, 0]))"
proof -
  obtain D where D: "normalized_dists (grid 48) = Inr D"
    and tt: "to_take_of (length (grid 48)) D = Inr [0..<48]"
    using grid48 by (rule remove_duplicates_split)
  have "cell9 ICP_identity (grid 48) D
      = ICP_identity (map (\<lambda>i. grid 48 ! i) (big_circle_of D [0..<48])) expected"
    using reference_ring[THEN conjunct2, THEN conjunct2, rule_format,
        of "grid 48" D "[0..<48]" ICP_identity] tt by simp
  then have "cell9 ICP_identity (grid 48) D = Inr ((), identity3, [0, 0, 0])"
    by (simp add: ICP_identity_def)
  moreover have "expected ! 1 = [cos (- (pi / 12)), sin (- (pi / 12)), 0]"
    using reference_ring[THEN conjunct2, THEN conjunct1, rule_format, of 1] by simp
  ultimately show ?thesis using D by blast
qed

subsection \<open>Applying the transform\<close>

lemma list3_form: "length xs = 3 \<Longrightarrow> \<exists>a b c. xs = [a, b, c]"
  by (auto simp: numeral_3_eq_3 length_Suc_conv)

lemma list4_form: "length xs = 4 \<Longrightarrow> \<exists>a b c d. xs = [a, b, c, d]"
proof -
  assume "length xs = 4"
  then have "length xs = Suc (Suc (Suc (Suc 0)))" by simp
  then show ?thesis by (auto simp: length_Suc_conv)
qed

lemma mat3_form:
  assumes "is_mat3 M"
  obtains a b c d e f g h k where "M = [[a, b, c], [d, e, f], [g, h, k]]"
proof -
  from assms obtain r0 r1 r2 where M: "M = [r0, r1, r2]"
    using list3_form[of M] by (auto simp: is_mat3_def)
  with assms have "length r0 = 3" "length r1 = 3" "length r2 = 3"
    by (simp_all add: is_mat3_def)
  then show ?thesis
    using list3_form[of r0] list3_form[of r1] list3_form[of r2] M that by auto
qed

lemma pose_form:
  assumes "is_pose P"
  obtains a b c x d e f y g h k z where
    "P = [[a, b, c, x], [d, e, f, y], [g, h, k, z], [0, 0, 0, 1]]"
proof -
  from assms obtain r0 r1 r2 r3 where P: "P = [r0, r1, r2, r3]"
    using list4_form[of P] by (auto simp: is_pose_def)
  with assms have "length r0 = 4" "length r1 = 4" "length r2 = 4" "r3 = [0, 0, 0, 1]"
    by (simp_all add: is_pose_def)
  then show ?thesis
    using list4_form[of r0] list4_form[of r1] list4_form[of r2] P that by auto
qed

lemma apply_transform_pose:
  assumes "is_mat3 sR" "length t = 3" "is_pose P"
  shows "trans_col (matmul (assemble_T sR t) P) = vadd (matvec sR (trans_col P)) t"
    and "rot_block (matmul (assemble_T sR t) P) = matmul sR (rot_block P)"
    and "matmul (assemble_T sR t) P ! 3 = [0, 0, 0, 1]"
    and "is_pose (matmul (assemble_T sR t) P)"
proof -
  obtain a b c d e f g h k where sR: "sR = [[a, b, c], [d, e, f], [g, h, k]]"
    using assms(1) by (rule mat3_form)
  obtain t0 t1 t2 where t: "t = [t0, t1, t2]"
    using list3_form[OF assms(2)] by blast
  obtain p00 p01 p02 x p10 p11 p12 y p20 p21 p22 z where
    P: "P = [[p00, p01, p02, x], [p10, p11, p12, y], [p20, p21, p22, z], [0, 0, 0, 1]]"
    using assms(3) by (rule pose_form)
  show "trans_col (matmul (assemble_T sR t) P) = vadd (matvec sR (trans_col P)) t"
    by (simp add: sR t P trans_col_def matmul_def assemble_T_def dot_def column_def vadd_def
        matvec_def)
  show "rot_block (matmul (assemble_T sR t) P) = matmul sR (rot_block P)"
    by (simp add: sR t P rot_block_def matmul_def assemble_T_def dot_def column_def)
  show "matmul (assemble_T sR t) P ! 3 = [0, 0, 0, 1]"
    by (simp add: sR t P matmul_def assemble_T_def dot_def column_def)
  show "is_pose (matmul (assemble_T sR t) P)"
    by (simp add: sR t P matmul_def assemble_T_def dot_def column_def is_pose_def)
qed

lemma smul_mat3: "is_mat3 R \<Longrightarrow> is_mat3 (smul_mat s R)"
  by (auto simp: is_mat3_def smul_mat_def smul_vec_def list_all_iff)

lemma matvec_smul:
  "is_mat3 R \<Longrightarrow> length v = 3 \<Longrightarrow> matvec (smul_mat s R) v = smul_vec s (matvec R v)"
proof -
  assume R: "is_mat3 R" and "length v = 3"
  then obtain x y z where v: "v = [x, y, z]" using list3_form by blast
  from R obtain a b c d e f g h k where "R = [[a, b, c], [d, e, f], [g, h, k]]"
    by (rule mat3_form)
  then show ?thesis
    by (simp add: v matvec_def smul_mat_def smul_vec_def dot_def algebra_simps)
qed

lemma matmul_smul:
  assumes "is_mat3 R" "is_mat3 B"
  shows "matmul (smul_mat s R) B = smul_mat s (matmul R B)"
proof -
  obtain a b c d e f g h k where "R = [[a, b, c], [d, e, f], [g, h, k]]"
    using assms(1) by (rule mat3_form)
  moreover obtain a' b' c' d' e' f' g' h' k' where "B = [[a', b', c'], [d', e', f'], [g', h', k']]"
    using assms(2) by (rule mat3_form)
  ultimately show ?thesis
    by (simp add: matmul_def smul_mat_def smul_vec_def dot_def column_def algebra_simps)
qed

lemma pose_parts: 
  assumes "is_pose P"
  shows "is_mat3 (rot_block P)" "length (trans_col P) = 3"
proof -
  obtain p00 p01 p02 x p10 p11 p12 y p20 p21 p22 z where
    P: "P = [[p00, p01, p02, x], [p10, p11, p12, y], [p20, p21, p22, z], [0, 0, 0, 1]]"
    using assms by (rule pose_form)
  show "is_mat3 (rot_block P)" by (simp add: P rot_block_def is_mat3_def)
  show "length (trans_col P) = 3" by (simp add: P trans_col_def)
qed

text \<open>
  C1 (as amended).  Cell 10 multiplies every pose of the array, duplicates included, from the
  left by the matrix assembled from \<open>sR\<close> and \<open>t\<close>.  With \<open>sR = s R\<close> the new translation is
  \<open>s R t\<^sub>o\<^sub>l\<^sub>d + t\<close> and the new rotation block is \<open>s (R R\<^sub>o\<^sub>l\<^sub>d)\<close>: the scale is part of the
  rotation block of every pose.
\<close>

theorem transform_applied_to_every_pose:
  assumes "is_mat3 R" "length t = 3" "i < length Ts" "is_pose (Ts ! i)"
  shows "length (cell10 (smul_mat s R) t Ts) = length Ts \<and>
         trans_col (cell10 (smul_mat s R) t Ts ! i)
           = vadd (smul_vec s (matvec R (trans_col (Ts ! i)))) t \<and>
         rot_block (cell10 (smul_mat s R) t Ts ! i)
           = smul_mat s (matmul R (rot_block (Ts ! i))) \<and>
         cell10 (smul_mat s R) t Ts ! i ! 3 = [0, 0, 0, 1]"
proof -
  have sR: "is_mat3 (smul_mat s R)" using assms(1) by (rule smul_mat3)
  have nth: "cell10 (smul_mat s R) t Ts ! i = matmul (assemble_T (smul_mat s R) t) (Ts ! i)"
    using assms(3) by (simp add: cell10_def)
  note parts = pose_parts[OF assms(4)]
  show ?thesis
    unfolding nth
    using apply_transform_pose[OF sR assms(2) assms(4)]
    by (simp add: cell10_def matvec_smul[OF assms(1) parts(2)] matmul_smul[OF assms(1) parts(1)])
qed

theorem transform_applied_to_every_pose_witness:
  "rot_block (cell10 (smul_mat 2 identity3) [1, 2, 3] [pose_at [1, 0, 0]] ! 0)
     = [[2, 0, 0], [0, 2, 0], [0, 0, 2]] \<and>
   trans_col (cell10 (smul_mat 2 identity3) [1, 2, 3] [pose_at [1, 0, 0]] ! 0) = [3, 2, 3]"
proof -
  have "is_mat3 identity3" "length [1, 2, 3 :: real] = 3" "0 < length [pose_at [1, 0, 0]]"
    "is_pose ([pose_at [1, 0, 0]] ! 0)"
    by (simp_all add: is_mat3_def identity3_def is_pose_def pose_at_def)
  from transform_applied_to_every_pose[OF this, of 2]
  show ?thesis
    by (simp add: identity3_def pose_at_def matmul_def rot_block_def trans_col_def
        smul_mat_def smul_vec_def matvec_def vadd_def dot_def column_def)
qed

theorem rotation_without_scale_counterexample:
  "rot_block (cell10 (smul_mat 2 identity3) [0, 0, 0] [identity4] ! 0)
     \<noteq> matmul identity3 (rot_block identity4)"
  by (simp add: cell10_def identity3_def identity4_def matmul_def rot_block_def
      smul_mat_def smul_vec_def assemble_T_def dot_def column_def)

subsection \<open>The height estimate\<close>

lemma pose_cols:
  assumes "is_pose P"
  obtains tx ty tz dx dy dz where
    "trans_col P = [tx, ty, tz]" "ray_col P = [dx, dy, dz]"
    "tx = P ! 0 ! 3" "ty = P ! 1 ! 3" "tz = P ! 2 ! 3"
    "dx = P ! 0 ! 2" "dy = P ! 1 ! 2" "dz = P ! 2 ! 2"
proof -
  obtain p00 p01 p02 x p10 p11 p12 y p20 p21 p22 z where
    P: "P = [[p00, p01, p02, x], [p10, p11, p12, y], [p20, p21, p22, z], [0, 0, 0, 1]]"
    using assms by (rule pose_form)
  show ?thesis
    by (rule that[of x y z p02 p12 p22]) (simp_all add: P trans_col_def ray_col_def)
qed

lemma ratios_row_regular:
  assumes "dx \<noteq> 0" "dy \<noteq> 0"
  shows "ratios_row [tx, ty, tz] [dx, dy, dz]
           = [Fin ((- tx * dx + - ty * dy) / (dx\<^sup>2 + dy\<^sup>2)),
              Fin ((- tx * dx + - ty * dy) / (dx\<^sup>2 + dy\<^sup>2))]"
proof -
  have "dx\<^sup>2 + dy\<^sup>2 \<noteq> 0" using assms by (simp add: sum_power2_eq_zero_iff)
  then show ?thesis
    using assms by (simp add: ratios_row_def v_xy_row_def Let_def)
qed

lemma ratios_row_down: "ratios_row [tx, ty, tz] [0, 0, dz] = [NaN, NaN]"
  by (simp add: ratios_row_def v_xy_row_def Let_def)

lemma ratios_row_x0:
  assumes "dy \<noteq> 0"
  shows "ratios_row [tx, ty, tz] [0, dy, dz] = [NaN, Fin (- ty / dy)]"
  using assms by (simp add: ratios_row_def v_xy_row_def Let_def power2_eq_square)

lemma ratios_row_y0:
  assumes "dx \<noteq> 0"
  shows "ratios_row [tx, ty, tz] [dx, 0, dz] = [Fin (- tx / dx), NaN]"
  using assms by (simp add: ratios_row_def v_xy_row_def Let_def power2_eq_square)

lemma map2_same: "map2 f (map g xs) (map h xs) = map (\<lambda>x. f (g x) (h x)) xs"
  by (induction xs) simp_all

lemma cell17_unfold:
  "cell17 Ts =
     (if Ts = [] then Inl IndexError
      else if \<forall>T \<in> set Ts. isclose (ratios_row (trans_col T) (ray_col T) ! 0)
                                  (ratios_row (trans_col T) (ray_col T) ! 1)
      then Inr (np_mean (z_heights Ts), map (recenter_pose (np_mean (z_heights Ts))) Ts)
      else Inl AssertionError)"
  by (simp add: cell17_def ray_dirs_of_def ts_of_def map2_same assert_allclose_def Let_def
      list_all2_map1 list_all2_map2 list_all2_same)

lemma z_heights_nth:
  "i < length Ts \<Longrightarrow>
   z_heights Ts ! i =
     np_add (np_mul (Fin (ray_col (Ts ! i) ! 2))
               (ratios_row (trans_col (Ts ! i)) (ray_col (Ts ! i)) ! 0))
            (Fin (trans_col (Ts ! i) ! 2))"
  by (simp add: z_heights_def ray_dirs_of_def ts_of_def map2_same)

lemma length_z_heights: "length (z_heights Ts) = length Ts"
  by (simp add: z_heights_def ray_dirs_of_def ts_of_def)

lemma np_add_NaN: "np_add NaN x = NaN" "np_add x NaN = NaN"
  by (cases x; simp)+

lemma foldl_np_add_NaN: "foldl np_add NaN zs = NaN"
  by (induction zs) (simp_all add: np_add_NaN)

lemma foldl_np_add_has_NaN: "NaN \<in> set zs \<Longrightarrow> foldl np_add a zs = NaN"
  by (induction zs arbitrary: a) (auto simp: np_add_NaN foldl_np_add_NaN)

lemma np_mean_NaN: "NaN \<in> set zs \<Longrightarrow> np_mean zs = NaN"
  by (simp add: np_mean_def foldl_np_add_has_NaN)

lemma foldl_np_add_Fin: "foldl np_add (Fin a) (map Fin xs) = Fin (a + sum_list xs)"
  by (induction xs arbitrary: a) (simp_all add: add.assoc)

lemma np_mean_const:
  assumes "n > 0"
  shows "np_mean (replicate n (Fin h)) = Fin h"
proof -
  have "replicate n (Fin h) = map Fin (replicate n h)" by simp
  then have "foldl np_add (Fin 0) (replicate n (Fin h)) = Fin (real n * h)"
    by (simp only: foldl_np_add_Fin) (simp add: sum_list_replicate)
  then show ?thesis using assms by (simp add: np_mean_def)
qed

lemma recenter_pose_entries:
  assumes "is_pose P"
  shows "trans_col (recenter_pose z P)
           = [Fin (P ! 0 ! 3), Fin (P ! 1 ! 3), np_sub (Fin (P ! 2 ! 3)) z]"
    and "rot_block (recenter_pose z P) = map (map Fin) (rot_block P)"
    and "recenter_pose z P ! 3 = map Fin (P ! 3)"
proof -
  obtain p00 p01 p02 x p10 p11 p12 y p20 p21 p22 t where
    P: "P = [[p00, p01, p02, x], [p10, p11, p12, y], [p20, p21, p22, t], [0, 0, 0, 1]]"
    using assms by (rule pose_form)
  show "trans_col (recenter_pose z P)
           = [Fin (P ! 0 ! 3), Fin (P ! 1 ! 3), np_sub (Fin (P ! 2 ! 3)) z]"
    by (simp add: P recenter_pose_def trans_col_def)
  show "rot_block (recenter_pose z P) = map (map Fin) (rot_block P)"
    by (simp add: P recenter_pose_def rot_block_def)
  show "recenter_pose z P ! 3 = map Fin (P ! 3)"
    by (simp add: P recenter_pose_def)
qed

lemma rtol_nonneg: "0 \<le> rtol"
  by (simp add: rtol_def)

lemma z_height_down:
  assumes "is_pose P" "P ! 0 ! 2 = 0" "P ! 1 ! 2 = 0"
  shows "ratios_row (trans_col P) (ray_col P) = [NaN, NaN]"
proof -
  obtain tx ty tz dx dy dz where c: "trans_col P = [tx, ty, tz]" "ray_col P = [dx, dy, dz]"
    "dx = P ! 0 ! 2" "dy = P ! 1 ! 2"
    using assms(1) by (rule pose_cols)
  show ?thesis using assms(2,3) by (simp add: c ratios_row_down)
qed

lemma assertion_fails_one_zero:
  assumes "is_pose P" "(P ! 0 ! 2 = 0) \<noteq> (P ! 1 ! 2 = 0)"
  shows "\<not> isclose (ratios_row (trans_col P) (ray_col P) ! 0)
                    (ratios_row (trans_col P) (ray_col P) ! 1)"
proof -
  obtain tx ty tz dx dy dz where c: "trans_col P = [tx, ty, tz]" "ray_col P = [dx, dy, dz]"
    "dx = P ! 0 ! 2" "dy = P ! 1 ! 2"
    using assms(1) by (rule pose_cols)
  from assms(2) consider "dx = 0" "dy \<noteq> 0" | "dx \<noteq> 0" "dy = 0"
    using c(3,4) by auto
  then show ?thesis
  proof cases
    case 1
    then show ?thesis by (simp add: c(1,2) ratios_row_x0)
  next
    case 2
    then show ?thesis by (simp add: c(1,2) ratios_row_y0)
  qed
qed

text \<open>
  C4 (as amended).  The cell has no guard for a ray without horizontal component.  For a
  camera whose ray direction has both horizontal components equal to zero, both ratios are
  NaN, which the assertion accepts, and the height estimate of that camera is NaN; the
  camera stays in the average, so whenever the cell returns, the mean height and the
  re-centred height of every camera are NaN.  For a camera with exactly one horizontal
  component equal to zero the assertion fails and the cell raises.
\<close>

theorem degenerate_ray:
  assumes "i < length Ts" "is_pose (Ts ! i)"
  shows "(Ts ! i ! 0 ! 2 = 0 \<and> Ts ! i ! 1 ! 2 = 0 \<longrightarrow>
            isclose (ratios_row (trans_col (Ts ! i)) (ray_col (Ts ! i)) ! 0)
                    (ratios_row (trans_col (Ts ! i)) (ray_col (Ts ! i)) ! 1) \<and>
            z_heights Ts ! i = NaN \<and>
            (\<forall>z Ts'. cell17 Ts = Inr (z, Ts') \<longrightarrow>
               z = NaN \<and> (\<forall>j<length Ts. is_pose (Ts ! j) \<longrightarrow> trans_col (Ts' ! j) ! 2 = NaN))) \<and>
         ((Ts ! i ! 0 ! 2 = 0) \<noteq> (Ts ! i ! 1 ! 2 = 0) \<longrightarrow> cell17 Ts = Inl AssertionError)"
proof (intro conjI impI allI)
  assume z: "Ts ! i ! 0 ! 2 = 0 \<and> Ts ! i ! 1 ! 2 = 0"
  then have r: "ratios_row (trans_col (Ts ! i)) (ray_col (Ts ! i)) = [NaN, NaN]"
    using z_height_down[OF assms(2)] by blast
  show "isclose (ratios_row (trans_col (Ts ! i)) (ray_col (Ts ! i)) ! 0)
                (ratios_row (trans_col (Ts ! i)) (ray_col (Ts ! i)) ! 1)"
    by (simp add: r)
  show zi: "z_heights Ts ! i = NaN"
    by (simp add: z_heights_nth[OF assms(1)] r np_add_NaN)
  have mean: "np_mean (z_heights Ts) = NaN"
    by (rule np_mean_NaN) (metis zi assms(1) length_z_heights nth_mem)
  {
    fix z Ts'
    assume ok: "cell17 Ts = Inr (z, Ts')"
    then have zT: "z = NaN" "Ts' = map (recenter_pose NaN) Ts"
      using mean by (auto simp: cell17_unfold split: if_splits)
    show "z = NaN" by (rule zT)
    fix j
    assume j: "j < length Ts" "is_pose (Ts ! j)"
    show "trans_col (Ts' ! j) ! 2 = NaN"
      using j by (simp add: zT recenter_pose_entries(1) np_sub_def np_add_NaN)
  }
next
  assume "(Ts ! i ! 0 ! 2 = 0) \<noteq> (Ts ! i ! 1 ! 2 = 0)"
  then have "\<not> isclose (ratios_row (trans_col (Ts ! i)) (ray_col (Ts ! i)) ! 0)
                    (ratios_row (trans_col (Ts ! i)) (ray_col (Ts ! i)) ! 1)"
    by (rule assertion_fails_one_zero[OF assms(2)])
  moreover have "Ts ! i \<in> set Ts" "Ts \<noteq> []" using assms(1) by auto
  ultimately show "cell17 Ts = Inl AssertionError"
    unfolding cell17_unfold by auto
qed

lemma is_pose_examples: "is_pose cam1" "is_pose cam2" "is_pose cam_down" "is_pose cam_side"
  by (simp_all add: is_pose_def cam1_def cam2_def cam_down_def cam_side_def pose_at_def)

lemma cam_cols:
  "trans_col cam1 = [3, 1, 5]" "ray_col cam1 = [2 / 3, - (1 / 3), 2 / 3]"
  "trans_col cam2 = [2, 4, 5]" "ray_col cam2 = [1 / 3, 2 / 3, 2 / 3]"
  "trans_col cam_down = [0, 0, 5]" "ray_col cam_down = [0, 0, 1]"
  "trans_col cam_side = [0, 2, 1]" "ray_col cam_side = [0, 1, 0]"
  by (simp_all add: trans_col_def ray_col_def cam1_def cam2_def cam_down_def cam_side_def
      pose_at_def)

lemma cam_ratios:
  "ratios_row [3, 1, 5] [2 / 3, - (1 / 3), 2 / 3] = [Fin (- 3), Fin (- 3)]"
  "ratios_row [2, 4, 5] [1 / 3, 2 / 3, 2 / 3] = [Fin (- 6), Fin (- 6)]"
  by (simp_all add: ratios_row_regular power2_eq_square)

lemma cell17_cam2: "cell17_z_height [cam2] = Inr (Fin 1)"
  by (simp add: cell17_z_height_def cell17_unfold cam_cols cam_ratios z_heights_def
      ray_dirs_of_def ts_of_def np_mean_def rtol_nonneg)

theorem degenerate_ray_witness:
  "cell17_z_height [cam2, cam_down] = Inr NaN \<and> cell17 [cam2, cam_side] = Inl AssertionError"
proof -
  have ok: "cell17 [cam2, cam_down]
      = Inr (np_mean (z_heights [cam2, cam_down]),
             map (recenter_pose (np_mean (z_heights [cam2, cam_down]))) [cam2, cam_down])"
    by (simp add: cell17_unfold cam_cols cam_ratios ratios_row_down rtol_nonneg)
  have "1 < length [cam2, cam_down]" "is_pose ([cam2, cam_down] ! 1)"
    by (simp_all add: is_pose_examples)
  from degenerate_ray[OF this] ok
  have "np_mean (z_heights [cam2, cam_down]) = NaN"
    by (simp add: cam_down_def pose_at_def)
  with ok have "cell17_z_height [cam2, cam_down] = Inr NaN"
    by (simp add: cell17_z_height_def)
  moreover have "1 < length [cam2, cam_side]" "is_pose ([cam2, cam_side] ! 1)"
    by (simp_all add: is_pose_examples)
  from degenerate_ray[OF this]
  have "cell17 [cam2, cam_side] = Inl AssertionError"
    by (simp add: cam_side_def)
  ultimately show ?thesis by blast
qed

theorem degenerate_ray_counterexample:
  "cell17_z_height [cam2] = Inr (Fin 1) \<and> cell17_z_height [cam2, cam_down] = Inr NaN"
proof -
  have "NaN \<in> set (z_heights [cam2, cam_down])"
    by (simp add: z_heights_def ray_dirs_of_def ts_of_def cam_cols ratios_row_down np_add_NaN)
  then have "np_mean (z_heights [cam2, cam_down]) = NaN" by (rule np_mean_NaN)
  then have "cell17_z_height [cam2, cam_down] = Inr NaN"
    by (simp add: cell17_z_height_def cell17_unfold cam_cols cam_ratios ratios_row_down
        rtol_nonneg)
  then show ?thesis using cell17_cam2 by simp
qed

lemma through_axis_point:
  assumes "dx \<noteq> 0" "dy \<noteq> 0" "tx + \<mu> * dx = 0" "ty + \<mu> * dy = 0"
  shows "ratios_row [tx, ty, tz] [dx, dy, dz] = [Fin \<mu>, Fin \<mu>]"
proof -
  have ss: "dx\<^sup>2 + dy\<^sup>2 \<noteq> 0" using assms(1) by (simp add: sum_power2_eq_zero_iff)
  have "tx = - \<mu> * dx" "ty = - \<mu> * dy" using assms(3,4) by linarith+
  then have "- tx * dx + - ty * dy = \<mu> * (dx\<^sup>2 + dy\<^sup>2)"
    by (simp add: power2_eq_square algebra_simps)
  then have "(- tx * dx + - ty * dy) / (dx\<^sup>2 + dy\<^sup>2) = \<mu>"
    using ss by simp
  then show ?thesis
    using ratios_row_regular[OF assms(1,2), of tx ty tz dz] by simp
qed

lemma pose_through_axis_point:
  assumes "is_pose P" "P ! 0 ! 2 \<noteq> 0" "P ! 1 ! 2 \<noteq> 0"
    and "P ! 0 ! 3 + \<mu> * P ! 0 ! 2 = 0" "P ! 1 ! 3 + \<mu> * P ! 1 ! 2 = 0"
    and "P ! 2 ! 3 + \<mu> * P ! 2 ! 2 = h"
  shows "ratios_row (trans_col P) (ray_col P) = [Fin \<mu>, Fin \<mu>]"
    and "np_add (np_mul (Fin (ray_col P ! 2)) (ratios_row (trans_col P) (ray_col P) ! 0))
            (Fin (trans_col P ! 2)) = Fin h"
proof -
  obtain tx ty tz dx dy dz where c: "trans_col P = [tx, ty, tz]" "ray_col P = [dx, dy, dz]"
    "tx = P ! 0 ! 3" "ty = P ! 1 ! 3" "tz = P ! 2 ! 3"
    "dx = P ! 0 ! 2" "dy = P ! 1 ! 2" "dz = P ! 2 ! 2"
    using assms(1) by (rule pose_cols)
  show r: "ratios_row (trans_col P) (ray_col P) = [Fin \<mu>, Fin \<mu>]"
    unfolding c(1,2) using assms(2-5) c(3-8) by (intro through_axis_point) simp_all
  show "np_add (np_mul (Fin (ray_col P ! 2)) (ratios_row (trans_col P) (ray_col P) ! 0))
            (Fin (trans_col P ! 2)) = Fin h"
    unfolding r using assms(6) by (simp add: c algebra_simps)
qed

text \<open>
  C5 (as amended).  The estimate is the height at which a ray comes closest to the vertical
  axis through the origin, and only the heights of the cameras are re-centred.  When all
  rays pass through one point \<open>(0, 0, h)\<close> of that axis and no ray has a horizontal component
  equal to zero, every per-camera estimate is \<open>h\<close>, the mean is \<open>h\<close>, and the cell subtracts
  \<open>h\<close> from the height of every camera and leaves the other coordinates alone, so that the
  point \<open>(0, 0, h)\<close> becomes the origin.
\<close>

theorem rays_through_axis_point:
  assumes "Ts \<noteq> []"
    and "\<forall>T \<in> set Ts. is_pose T \<and> T ! 0 ! 2 \<noteq> 0 \<and> T ! 1 ! 2 \<noteq> 0 \<and>
           (\<exists>\<mu>. T ! 0 ! 3 + \<mu> * T ! 0 ! 2 = 0 \<and> T ! 1 ! 3 + \<mu> * T ! 1 ! 2 = 0 \<and>
                T ! 2 ! 3 + \<mu> * T ! 2 ! 2 = h)"
  shows "z_heights Ts = replicate (length Ts) (Fin h) \<and>
         cell17 Ts = Inr (Fin h, map (recenter_pose (Fin h)) Ts) \<and>
         (\<forall>T \<in> set Ts. trans_col (recenter_pose (Fin h) T)
                          = [Fin (T ! 0 ! 3), Fin (T ! 1 ! 3), Fin (T ! 2 ! 3 - h)])"
proof -
  have each: "isclose (ratios_row (trans_col T) (ray_col T) ! 0)
                      (ratios_row (trans_col T) (ray_col T) ! 1) \<and>
              np_add (np_mul (Fin (ray_col T ! 2)) (ratios_row (trans_col T) (ray_col T) ! 0))
                (Fin (trans_col T ! 2)) = Fin h"
    if "T \<in> set Ts" for T
  proof -
    from assms(2) that obtain \<mu> where T: "is_pose T" "T ! 0 ! 2 \<noteq> 0" "T ! 1 ! 2 \<noteq> 0"
      "T ! 0 ! 3 + \<mu> * T ! 0 ! 2 = 0" "T ! 1 ! 3 + \<mu> * T ! 1 ! 2 = 0"
      "T ! 2 ! 3 + \<mu> * T ! 2 ! 2 = h"
      by blast
    show ?thesis
      using pose_through_axis_point[OF T] by (simp add: rtol_nonneg)
  qed
  have zs: "z_heights Ts = replicate (length Ts) (Fin h)"
  proof (rule nth_equalityI)
    show "length (z_heights Ts) = length (replicate (length Ts) (Fin h))"
      by (simp add: length_z_heights)
    fix i assume "i < length (z_heights Ts)"
    then have i: "i < length Ts" by (simp add: length_z_heights)
    then show "z_heights Ts ! i = replicate (length Ts) (Fin h) ! i"
      using each[of "Ts ! i"] by (simp add: z_heights_nth)
  qed
  have mean: "np_mean (z_heights Ts) = Fin h"
    unfolding zs using assms(1) by (intro np_mean_const) simp
  have "cell17 Ts = Inr (Fin h, map (recenter_pose (Fin h)) Ts)"
    unfolding cell17_unfold mean using assms(1) each by simp
  moreover have "\<forall>T \<in> set Ts. trans_col (recenter_pose (Fin h) T)
                          = [Fin (T ! 0 ! 3), Fin (T ! 1 ! 3), Fin (T ! 2 ! 3 - h)]"
    using assms(2) by (simp add: recenter_pose_entries(1) np_sub_def)
  ultimately show ?thesis using zs by blast
qed

theorem rays_through_axis_point_witness:
  "cell17 [cam2, cam2] = Inr (Fin 1, map (recenter_pose (Fin 1)) [cam2, cam2]) \<and>
   trans_col (recenter_pose (Fin 1) cam2) = [Fin 2, Fin 4, Fin 4]"
proof -
  have "cam2 ! 0 ! 3 + (- 6) * cam2 ! 0 ! 2 = 0 \<and> cam2 ! 1 ! 3 + (- 6) * cam2 ! 1 ! 2 = 0 \<and>
        cam2 ! 2 ! 3 + (- 6) * cam2 ! 2 ! 2 = 1"
    by (simp add: cam2_def)
  then have ex: "\<exists>\<mu>. cam2 ! 0 ! 3 + \<mu> * cam2 ! 0 ! 2 = 0 \<and> cam2 ! 1 ! 3 + \<mu> * cam2 ! 1 ! 2 = 0 \<and>
        cam2 ! 2 ! 3 + \<mu> * cam2 ! 2 ! 2 = 1"
    by (rule exI)
  have nz: "cam2 ! 0 ! 2 \<noteq> 0" "cam2 ! 1 ! 2 \<noteq> 0"
    by (simp_all add: cam2_def)
  have "\<forall>T \<in> set [cam2, cam2]. is_pose T \<and> T ! 0 ! 2 \<noteq> 0 \<and> T ! 1 ! 2 \<noteq> 0 \<and>
           (\<exists>\<mu>. T ! 0 ! 3 + \<mu> * T ! 0 ! 2 = 0 \<and> T ! 1 ! 3 + \<mu> * T ! 1 ! 2 = 0 \<and>
                T ! 2 ! 3 + \<mu> * T ! 2 ! 2 = 1)"
    using is_pose_examples(2) nz ex by simp
  from rays_through_axis_point[OF _ this]
  show ?thesis by (simp add: cam2_def)
qed

theorem rays_through_common_point_counterexample:
  "vadd (trans_col cam1) (smul_vec (- 3) (ray_col cam1)) = [1, 2, 3] \<and>
   vadd (trans_col cam2) (smul_vec (- 3) (ray_col cam2)) = [1, 2, 3] \<and>
   z_heights [cam1, cam2] = [Fin 3, Fin 1] \<and>
   cell17_z_height [cam1, cam2] = Inr (Fin 2)"
proof -
  have z: "z_heights [cam1, cam2] = [Fin 3, Fin 1]"
    by (simp add: z_heights_def ray_dirs_of_def ts_of_def cam_cols cam_ratios)
  have "cell17_z_height [cam1, cam2] = Inr (Fin 2)"
    by (simp add: cell17_z_height_def cell17_unfold cam_cols cam_ratios rtol_nonneg z np_mean_def)
  then show ?thesis
    by (simp add: z cam_cols vadd_def smul_vec_def)
qed

subsection \<open>Rescaling\<close>

lemma scale_pose_entries:
  assumes "length T = 4" "list_all (\<lambda>row. length row = 4) T"
  shows "trans_col (scale_pose sf T) = map (\<lambda>x. np_mul x (Fin sf)) (trans_col T)"
    and "rot_block (scale_pose sf T) = rot_block T"
    and "scale_pose sf T ! 3 = T ! 3"
proof -
  obtain r0 r1 r2 r3 where T: "T = [r0, r1, r2, r3]"
    using list4_form[OF assms(1)] by blast
  with assms(2) have "length r0 = 4" "length r1 = 4" "length r2 = 4"
    by simp_all
  then obtain a b c x d e f y g h k z where
    r: "r0 = [a, b, c, x]" "r1 = [d, e, f, y]" "r2 = [g, h, k, z]"
    using list4_form[of r0] list4_form[of r1] list4_form[of r2] by auto
  show "trans_col (scale_pose sf T) = map (\<lambda>x. np_mul x (Fin sf)) (trans_col T)"
    by (simp add: T r scale_pose_def trans_col_def)
  show "rot_block (scale_pose sf T) = rot_block T"
    by (simp add: T r scale_pose_def rot_block_def)
  show "scale_pose sf T ! 3 = T ! 3"
    by (simp add: T r scale_pose_def)
qed

lemma scale_factor_cases:
  "scale_factor fx fy cx cy =
     (if fx = 0 \<or> fy = 0 \<or> max (radius * cx / fx) (radius * cy / fy) = 0
      then Inl ZeroDivisionError
      else Inr (0.5 / max (radius * cx / fx) (radius * cy / fy)))"
  by (simp add: scale_factor_def max_xy_def)

text \<open>
  C6 (as amended).  Unless \<open>fx\<close>, \<open>fy\<close> or the larger of \<open>radius * cx / fx\<close> and
  \<open>radius * cy / fy\<close> is zero, in which case the step raises, the step multiplies the three
  translation entries of every pose by \<open>scale_factor = 0.5 / max (radius * cx / fx)
  (radius * cy / fy)\<close> with \<open>radius = 1\<close> and changes neither the rotation blocks nor the
  last rows.  The scale factor times the larger of the two half-extents is one half.
\<close>

theorem rescale_is_pure_scale:
  assumes "sf = 0.5 / max (radius * cx / fx) (radius * cy / fy)"
  shows "radius = 1 \<and>
    cell20 fx fy cx cy Ts =
      (if fx = 0 \<or> fy = 0 \<or> max (radius * cx / fx) (radius * cy / fy) = 0
       then Inl ZeroDivisionError else Inr (map (scale_pose sf) Ts)) \<and>
    (\<forall>T \<in> set Ts. length T = 4 \<and> list_all (\<lambda>row. length row = 4) T \<longrightarrow>
       trans_col (scale_pose sf T) = map (\<lambda>x. np_mul x (Fin sf)) (trans_col T) \<and>
       rot_block (scale_pose sf T) = rot_block T \<and>
       scale_pose sf T ! 3 = T ! 3) \<and>
    (max (radius * cx / fx) (radius * cy / fy) \<noteq> 0 \<longrightarrow>
       sf * max (radius * cx / fx) (radius * cy / fy) = 0.5)"
proof (intro conjI ballI impI)
  show "radius = 1" by (simp add: radius_def)
  show "cell20 fx fy cx cy Ts =
      (if fx = 0 \<or> fy = 0 \<or> max (radius * cx / fx) (radius * cy / fy) = 0
       then Inl ZeroDivisionError else Inr (map (scale_pose sf) Ts))"
    by (simp add: cell20_def scale_factor_cases assms)
next
  fix T :: "npfloat list list"
  assume "T \<in> set Ts" and "length T = 4 \<and> list_all (\<lambda>row. length row = 4) T"
  then have T: "length T = 4" "list_all (\<lambda>row. length row = 4) T" by blast+
  show "trans_col (scale_pose sf T) = map (\<lambda>x. np_mul x (Fin sf)) (trans_col T)"
    by (rule scale_pose_entries(1)[OF T])
  show "rot_block (scale_pose sf T) = rot_block T"
    by (rule scale_pose_entries(2)[OF T])
  show "scale_pose sf T ! 3 = T ! 3"
    by (rule scale_pose_entries(3)[OF T])
next
  assume "max (radius * cx / fx) (radius * cy / fy) \<noteq> 0"
  then show "sf * max (radius * cx / fx) (radius * cy / fy) = 0.5"
    by (simp add: assms)
qed

theorem rescale_is_pure_scale_witness:
  "cell20 2 4 2 1 [map (map Fin) cam1] = Inr [scale_pose (1 / 2) (map (map Fin) cam1)] \<and>
   trans_col (scale_pose (1 / 2) (map (map Fin) cam1)) = [Fin (3 / 2), Fin (1 / 2), Fin (5 / 2)] \<and>
   rot_block (scale_pose (1 / 2) (map (map Fin) cam1)) = rot_block (map (map Fin) cam1)"
proof -
  have sf: "(1 / 2 :: real) = 0.5 / max (radius * 2 / 2) (radius * 1 / 4)"
    by (simp add: radius_def)
  have shape: "map (map Fin) cam1 \<in> set [map (map Fin) cam1]"
    "length (map (map Fin) cam1) = 4 \<and> list_all (\<lambda>row. length row = 4) (map (map Fin) cam1)"
    by (simp_all add: cam1_def)
  have tc: "trans_col (map (map Fin) cam1) = [Fin 3, Fin 1, Fin 5]"
    by (simp add: cam1_def trans_col_def)
  note R = rescale_is_pure_scale[OF sf, of "[map (map Fin) cam1]"]
  have "cell20 2 4 2 1 [map (map Fin) cam1] = Inr [scale_pose (1 / 2) (map (map Fin) cam1)]"
    using R by (simp add: radius_def)
  moreover have "trans_col (scale_pose (1 / 2) (map (map Fin) cam1))
      = map (\<lambda>x. np_mul x (Fin (1 / 2))) (trans_col (map (map Fin) cam1))"
    "rot_block (scale_pose (1 / 2) (map (map Fin) cam1)) = rot_block (map (map Fin) cam1)"
    using R[THEN conjunct2, THEN conjunct2, THEN conjunct1, rule_format, OF shape] by blast+
  ultimately show ?thesis by (simp add: tc)
qed

text \<open>
  Two inputs at which the claim does not hold as it is written.  With a principal point at
  \<open>(0, 0)\<close> the larger half-extent is zero and the step raises instead of scaling.  With
  \<open>fx = fy = 2\<close> and \<open>cx = cy = 1\<close> the scale factor is 1, and for the rescaled half-extents
  \<open>x = scale_factor * max_x\<close> and \<open>y = scale_factor * max_y\<close> the value of
  \<open>max(|x|, |y|) * fx / cx\<close> is 1, not one half.
\<close>

theorem frustum_edge_counterexample:
  "cell20 1 1 0 0 [map (map Fin) cam1] = Inl ZeroDivisionError \<and>
   scale_factor 2 2 1 1 = Inr 1 \<and>
   max \<bar>1 * fst (max_xy 2 2 1 1)\<bar> \<bar>1 * snd (max_xy 2 2 1 1)\<bar> * (2 / 1) = 1"
  by (simp add: cell20_def scale_factor_def max_xy_def radius_def)

subsection \<open>The choice of the big circle\<close>
































subsection \<open>The similarity fit: algebra of 3 by 3 matrices\<close>

lemma upt_3: "[0..<3] = [0, 1, 2]"
  by (simp add: upt_rec)

lemma is_mat3I: "is_mat3 [[a, b, c], [d, e, f], [g, h, k]]"
  by (simp add: is_mat3_def)

lemma matmul3:
  "matmul [[a, b, c], [d, e, f], [g, h, k]] [[a', b', c'], [d', e', f'], [g', h', k']] =
     [[a * a' + b * d' + c * g', a * b' + b * e' + c * h', a * c' + b * f' + c * k'],
      [d * a' + e * d' + f * g', d * b' + e * e' + f * h', d * c' + e * f' + f * k'],
      [g * a' + h * d' + k * g', g * b' + h * e' + k * h', g * c' + h * f' + k * k']]"
  by (simp add: matmul_def dot_def column_def)

lemma transpose3: 
  "transpose_mat [[a, b, c], [d, e, f], [g, h, k]] = [[a, d, g], [b, e, h], [c, f, k]]"
  by (simp add: transpose_mat_def column_def upt_3)

lemma matvec3:
  "matvec [[a, b, c], [d, e, f], [g, h, k]] [x, y, z] =
     [a * x + b * y + c * z, d * x + e * y + f * z, g * x + h * y + k * z]"
  by (simp add: matvec_def dot_def)

lemma det3_explicit:
  "det3 [[a, b, c], [d, e, f], [g, h, k]] =
     a * (e * k - f * h) - b * (d * k - f * g) + c * (d * h - e * g)"
  by (simp add: det3_def)

lemma matmul_is_mat3: "is_mat3 A \<Longrightarrow> is_mat3 B \<Longrightarrow> is_mat3 (matmul A B)"
  by (erule mat3_form, erule mat3_form) (simp add: matmul3 is_mat3I)

lemma transpose_is_mat3: "is_mat3 A \<Longrightarrow> is_mat3 (transpose_mat A)"
  by (erule mat3_form) (simp add: transpose3 is_mat3I)

lemma matmul_assoc:
  assumes "is_mat3 A" "is_mat3 B" "is_mat3 C"
  shows "matmul (matmul A B) C = matmul A (matmul B C)"
proof -
  obtain a1 a2 a3 a4 a5 a6 a7 a8 a9 where A: "A = [[a1, a2, a3], [a4, a5, a6], [a7, a8, a9]]"
    using assms(1) by (rule mat3_form)
  obtain b1 b2 b3 b4 b5 b6 b7 b8 b9 where B: "B = [[b1, b2, b3], [b4, b5, b6], [b7, b8, b9]]"
    using assms(2) by (rule mat3_form)
  obtain c1 c2 c3 c4 c5 c6 c7 c8 c9 where C: "C = [[c1, c2, c3], [c4, c5, c6], [c7, c8, c9]]"
    using assms(3) by (rule mat3_form)
  show ?thesis
    unfolding A B C matmul3 by (simp add: algebra_simps)
qed

lemma matmul_identity:
  assumes "is_mat3 A"
  shows "matmul A identity3 = A" "matmul identity3 A = A"
proof -
  obtain a1 a2 a3 a4 a5 a6 a7 a8 a9 where A: "A = [[a1, a2, a3], [a4, a5, a6], [a7, a8, a9]]"
    using assms(1) by (rule mat3_form)
  show "matmul A identity3 = A" "matmul identity3 A = A"
    unfolding A identity3_def matmul3 by simp_all
qed

lemma transpose_matmul:
  assumes "is_mat3 A" "is_mat3 B"
  shows "transpose_mat (matmul A B) = matmul (transpose_mat B) (transpose_mat A)"
proof -
  obtain a1 a2 a3 a4 a5 a6 a7 a8 a9 where A: "A = [[a1, a2, a3], [a4, a5, a6], [a7, a8, a9]]"
    using assms(1) by (rule mat3_form)
  obtain b1 b2 b3 b4 b5 b6 b7 b8 b9 where B: "B = [[b1, b2, b3], [b4, b5, b6], [b7, b8, b9]]"
    using assms(2) by (rule mat3_form)
  show ?thesis
    unfolding A B matmul3 transpose3 by (simp add: algebra_simps)
qed

lemma transpose_transpose: "is_mat3 A \<Longrightarrow> transpose_mat (transpose_mat A) = A"
  by (erule mat3_form) (simp add: transpose3)

lemma det3_matmul:
  assumes "is_mat3 A" "is_mat3 B"
  shows "det3 (matmul A B) = det3 A * det3 B"
proof -
  obtain a1 a2 a3 a4 a5 a6 a7 a8 a9 where A: "A = [[a1, a2, a3], [a4, a5, a6], [a7, a8, a9]]"
    using assms(1) by (rule mat3_form)
  obtain b1 b2 b3 b4 b5 b6 b7 b8 b9 where B: "B = [[b1, b2, b3], [b4, b5, b6], [b7, b8, b9]]"
    using assms(2) by (rule mat3_form)
  show ?thesis
    unfolding A B matmul3 det3_explicit by (simp add: algebra_simps)
qed

lemma det3_transpose: "is_mat3 A \<Longrightarrow> det3 (transpose_mat A) = det3 A"
  by (erule mat3_form) (simp add: transpose3 det3_explicit algebra_simps)

lemma smul_mat3_explicit:
  "smul_mat s [[a, b, c], [d, e, f], [g, h, k]] =
     [[s * a, s * b, s * c], [s * d, s * e, s * f], [s * g, s * h, s * k]]"
  by (simp add: smul_mat_def smul_vec_def)

lemma matmul_smul_right:
  assumes "is_mat3 A" "is_mat3 B"
  shows "matmul A (smul_mat s B) = smul_mat s (matmul A B)"
proof -
  obtain a1 a2 a3 a4 a5 a6 a7 a8 a9 where A: "A = [[a1, a2, a3], [a4, a5, a6], [a7, a8, a9]]"
    using assms(1) by (rule mat3_form)
  obtain b1 b2 b3 b4 b5 b6 b7 b8 b9 where B: "B = [[b1, b2, b3], [b4, b5, b6], [b7, b8, b9]]"
    using assms(2) by (rule mat3_form)
  show ?thesis
    unfolding A B matmul3 smul_mat3_explicit by (simp add: algebra_simps)
qed

lemma psd_root_rows:
  fixes b11 b12 b13 b22 b23 b33 s1 s2 s3 :: real
  assumes sq: "b11 * b11 + b12 * b12 + b13 * b13 = s1 * s1"
      "b11 * b12 + b12 * b22 + b13 * b23 = 0"
      "b11 * b13 + b12 * b23 + b13 * b33 = 0"
      "b12 * b12 + b22 * b22 + b23 * b23 = s2 * s2"
      "b12 * b13 + b22 * b23 + b23 * b33 = 0"
      "b13 * b13 + b23 * b23 + b33 * b33 = s3 * s3"
    and psd: "\<And>x y z. 0 \<le> b11 * x * x + b22 * y * y + b33 * z * z
                       + 2 * b12 * x * y + 2 * b13 * x * z + 2 * b23 * y * z"
    and nonneg: "0 \<le> s1" "0 \<le> s2" "0 \<le> s3"
  shows "s1 * ((b11 - s1)\<^sup>2 + b12\<^sup>2 + b13\<^sup>2) = 0"
    and "s2 * (b12\<^sup>2 + (b22 - s2)\<^sup>2 + b23\<^sup>2) = 0"
    and "s3 * (b13\<^sup>2 + b23\<^sup>2 + (b33 - s3)\<^sup>2) = 0"
proof -
  define q where "q x y z = b11 * x * x + b22 * y * y + b33 * z * z
                       + 2 * b12 * x * y + 2 * b13 * x * z + 2 * b23 * y * z" for x y z
  define T1 where "T1 = s1 * ((b11 - s1)\<^sup>2 + b12\<^sup>2 + b13\<^sup>2)"
  define T2 where "T2 = s2 * (b12\<^sup>2 + (b22 - s2)\<^sup>2 + b23\<^sup>2)"
  define T3 where "T3 = s3 * (b13\<^sup>2 + b23\<^sup>2 + (b33 - s3)\<^sup>2)"
  define e11 where "e11 = b11 * b11 + b12 * b12 + b13 * b13 - s1 * s1"
  define e12 where "e12 = b11 * b12 + b12 * b22 + b13 * b23"
  define e13 where "e13 = b11 * b13 + b12 * b23 + b13 * b33"
  define e22 where "e22 = b12 * b12 + b22 * b22 + b23 * b23 - s2 * s2"
  define e23 where "e23 = b12 * b13 + b22 * b23 + b23 * b33"
  define e33 where "e33 = b13 * b13 + b23 * b23 + b33 * b33 - s3 * s3"
  have e0: "e11 = 0" "e12 = 0" "e13 = 0" "e22 = 0" "e23 = 0" "e33 = 0"
    using sq by (simp_all add: e11_def e12_def e13_def e22_def e23_def e33_def)
  have ident: "q (b11 - s1) b12 b13 + q b12 (b22 - s2) b23 + q b13 b23 (b33 - s3) + (T1 + T2 + T3)
      = e11 * (b11 - s1) + 2 * e12 * b12 + 2 * e13 * b13 + e22 * (b22 - s2) + 2 * e23 * b23
        + e33 * (b33 - s3)"
    unfolding q_def T1_def T2_def T3_def e11_def e12_def e13_def e22_def e23_def e33_def
    by (simp add: power2_eq_square algebra_simps)
  have qs: "0 \<le> q (b11 - s1) b12 b13" "0 \<le> q b12 (b22 - s2) b23" "0 \<le> q b13 b23 (b33 - s3)"
    unfolding q_def by (rule psd)+
  have Ts: "0 \<le> T1" "0 \<le> T2" "0 \<le> T3"
    unfolding T1_def T2_def T3_def using nonneg by simp_all
  have "q (b11 - s1) b12 b13 + q b12 (b22 - s2) b23 + q b13 b23 (b33 - s3) + (T1 + T2 + T3) = 0"
    unfolding ident by (simp add: e0)
  then have "T1 = 0" "T2 = 0" "T3 = 0" using qs Ts by linarith+
  then show "s1 * ((b11 - s1)\<^sup>2 + b12\<^sup>2 + b13\<^sup>2) = 0"
    and "s2 * (b12\<^sup>2 + (b22 - s2)\<^sup>2 + b23\<^sup>2) = 0"
    and "s3 * (b13\<^sup>2 + b23\<^sup>2 + (b33 - s3)\<^sup>2) = 0"
    by (simp_all add: T1_def T2_def T3_def)
qed

subsection \<open>Centroids and the cross-covariance of transformed points\<close>

lemma vec3_ops:
  "vadd [a, b, c] [x, y, z] = [a + x, b + y, c + z]"
  "vsub [a, b, c] [x, y, z] = [a - x, b - y, c - z]"
  "smul_vec s [x, y, z] = [s * x, s * y, s * z]"
  "dot [a, b, c] [x, y, z] = a * x + b * y + c * z"
  "cross [a, b, c] [x, y, z] = [b * z - c * y, c * x - a * z, a * y - b * x]"
  by (simp_all add: vadd_def vsub_def smul_vec_def dot_def cross_def)

lemma foldr_vadd_affine:
  assumes "\<forall>p \<in> set P. length p = 3" "is_mat3 R" "length t = 3"
  shows "length (foldr vadd P [0, 0, 0]) = 3 \<and>
         foldr vadd (map (\<lambda>p. vadd (smul_vec s (matvec R p)) t) P) [0, 0, 0]
           = vadd (smul_vec s (matvec R (foldr vadd P [0, 0, 0]))) (smul_vec (real (length P)) t)"
  using assms(1)
proof (induction P)
  case Nil
  obtain a b c d e f g h k where R: "R = [[a, b, c], [d, e, f], [g, h, k]]"
    using assms(2) by (rule mat3_form)
  obtain t0 t1 t2 where t: "t = [t0, t1, t2]" using list3_form[OF assms(3)] by blast
  show ?case by (simp add: R t matvec3 vec3_ops)
next
  case (Cons p P)
  obtain a b c d e f g h k where R: "R = [[a, b, c], [d, e, f], [g, h, k]]"
    using assms(2) by (rule mat3_form)
  obtain t0 t1 t2 where t: "t = [t0, t1, t2]" using list3_form[OF assms(3)] by blast
  from Cons.prems have "length p = 3" by simp
  then obtain x y z where p: "p = [x, y, z]" using list3_form by blast
  from Cons have len: "length (foldr vadd P [0, 0, 0]) = 3"
    and IH: "foldr vadd (map (\<lambda>p. vadd (smul_vec s (matvec R p)) t) P) [0, 0, 0]
           = vadd (smul_vec s (matvec R (foldr vadd P [0, 0, 0]))) (smul_vec (real (length P)) t)"
    by simp_all
  obtain u v w where S: "foldr vadd P [0, 0, 0] = [u, v, w]" using list3_form[OF len] by blast
  have A: "foldr vadd (map (\<lambda>p. vadd (smul_vec s (matvec R p)) t) (p # P)) [0, 0, 0]
      = vadd (vadd (smul_vec s (matvec R p)) t)
          (vadd (smul_vec s (matvec R [u, v, w])) (smul_vec (real (length P)) t))"
    by (simp add: IH S)
  have B: "foldr vadd (p # P) [0, 0, 0] = vadd p [u, v, w]"
    by (simp add: S)
  show ?case
    unfolding A B by (simp add: p R t matvec3 vec3_ops algebra_simps)
qed

lemma centroid_affine:
  assumes "\<forall>p \<in> set P. length p = 3" "is_mat3 R" "length t = 3" "P \<noteq> []"
  shows "length (centroid P) = 3"
    and "centroid (map (\<lambda>p. vadd (smul_vec s (matvec R p)) t) P)
           = vadd (smul_vec s (matvec R (centroid P))) t"
proof -
  obtain a b c d e f g h k where R: "R = [[a, b, c], [d, e, f], [g, h, k]]"
    using assms(2) by (rule mat3_form)
  obtain t0 t1 t2 where t: "t = [t0, t1, t2]" using list3_form[OF assms(3)] by blast
  note F = foldr_vadd_affine[OF assms(1,2,3), of s]
  obtain u v w where S: "foldr vadd P [0, 0, 0] = [u, v, w]"
    using F list3_form by blast
  have n: "real (length P) \<noteq> 0" using assms(4) by simp
  show "length (centroid P) = 3" by (simp add: centroid_def S vec3_ops)
  have "centroid (map (\<lambda>p. vadd (smul_vec s (matvec R p)) t) P)
      = smul_vec (1 / real (length P))
          (vadd (smul_vec s (matvec R [u, v, w])) (smul_vec (real (length P)) t))"
    by (simp add: centroid_def F[THEN conjunct2] S)
  then show "centroid (map (\<lambda>p. vadd (smul_vec s (matvec R p)) t) P)
           = vadd (smul_vec s (matvec R (centroid P))) t"
    using n by (simp add: centroid_def S R t matvec3 vec3_ops field_simps)
qed

lemma centered_affine:
  assumes "\<forall>p \<in> set P. length p = 3" "is_mat3 R" "length t = 3" "P \<noteq> []"
  shows "centered (map (\<lambda>p. vadd (smul_vec s (matvec R p)) t) P)
           = map (\<lambda>x. smul_vec s (matvec R x)) (centered P)"
proof -
  obtain a b c d e f g h k where R: "R = [[a, b, c], [d, e, f], [g, h, k]]"
    using assms(2) by (rule mat3_form)
  obtain t0 t1 t2 where t: "t = [t0, t1, t2]" using list3_form[OF assms(3)] by blast
  obtain u v w where c: "centroid P = [u, v, w]"
    using centroid_affine(1)[OF assms] list3_form by blast
  have "vsub (vadd (smul_vec s (matvec R p)) t) (vadd (smul_vec s (matvec R (centroid P))) t)
      = smul_vec s (matvec R (vsub p (centroid P)))" if "p \<in> set P" for p
  proof -
    from assms(1) that have "length p = 3" by blast
    then obtain x y z where p: "p = [x, y, z]" using list3_form by blast
    show ?thesis by (simp add: p c R t matvec3 vec3_ops algebra_simps)
  qed
  then show ?thesis
    unfolding centered_def centroid_affine(2)[OF assms] by simp
qed

lemma centered_lengths:
  assumes "\<forall>p \<in> set P. length p = 3" "P \<noteq> []"
  shows "\<forall>x \<in> set (centered P). length x = 3"
proof -
  have "length (centroid P) = 3"
    using centroid_affine(1)[OF assms(1) _ _ assms(2), of identity3 "[0, 0, 0]"]
    by (simp add: identity3_def is_mat3I)
  then show ?thesis using assms(1) by (auto simp: centered_def vsub_def)
qed

lemma cross_covariance_Nil: "cross_covariance [] [] = [[0, 0, 0], [0, 0, 0], [0, 0, 0]]"
  by (simp add: cross_covariance_def upt_3)

lemma cross_covariance_Cons:
  assumes "cross_covariance X Y = [[c00, c01, c02], [c10, c11, c12], [c20, c21, c22]]"
  shows "cross_covariance ([x0, x1, x2] # X) ([y0, y1, y2] # Y) =
     [[x0 * y0 + c00, x0 * y1 + c01, x0 * y2 + c02],
      [x1 * y0 + c10, x1 * y1 + c11, x1 * y2 + c12],
      [x2 * y0 + c20, x2 * y1 + c21, x2 * y2 + c22]]"
  using assms by (simp add: cross_covariance_def upt_3)

lemma cross_covariance_is_mat3: "is_mat3 (cross_covariance X Y)"
  by (simp add: cross_covariance_def upt_3 is_mat3_def)

lemma cross_covariance_linear:
  assumes "\<forall>p \<in> set X. length p = 3" "is_mat3 R"
  shows "cross_covariance X (map (\<lambda>x. smul_vec s (matvec R x)) X)
           = smul_mat s (matmul (cross_covariance X X) (transpose_mat R))"
  using assms(1)
proof (induction X)
  case Nil
  obtain a b c d e f g h k where R: "R = [[a, b, c], [d, e, f], [g, h, k]]"
    using assms(2) by (rule mat3_form)
  show ?case
    by (simp add: cross_covariance_Nil R transpose3 matmul3 smul_mat3_explicit)
next
  case (Cons p X)
  obtain a b c d e f g h k where R: "R = [[a, b, c], [d, e, f], [g, h, k]]"
    using assms(2) by (rule mat3_form)
  from Cons.prems have "length p = 3" by simp
  then obtain x y z where p: "p = [x, y, z]" using list3_form by blast
  obtain a00 a01 a02 a10 a11 a12 a20 a21 a22 where
    A: "cross_covariance X X = [[a00, a01, a02], [a10, a11, a12], [a20, a21, a22]]"
    using cross_covariance_is_mat3 by (rule mat3_form)
  have IH: "cross_covariance X (map (\<lambda>x. smul_vec s (matvec R x)) X)
      = smul_mat s (matmul [[a00, a01, a02], [a10, a11, a12], [a20, a21, a22]] (transpose_mat R))"
    using Cons by (simp add: A)
  have gp: "smul_vec s (matvec R p)
      = [s * (a * x + b * y + c * z), s * (d * x + e * y + f * z), s * (g * x + h * y + k * z)]"
    by (simp add: p R matvec3 vec3_ops)
  have "cross_covariance (p # X) (map (\<lambda>x. smul_vec s (matvec R x)) (p # X))
      = cross_covariance ([x, y, z] # X)
          ([s * (a * x + b * y + c * z), s * (d * x + e * y + f * z), s * (g * x + h * y + k * z)]
            # map (\<lambda>x. smul_vec s (matvec R x)) X)"
    by (simp add: gp) (simp add: p)
  also have "\<dots> = smul_mat s (matmul (cross_covariance ([x, y, z] # X) ([x, y, z] # X))
      (transpose_mat R))"
    unfolding cross_covariance_Cons[OF IH[unfolded R transpose3 matmul3 smul_mat3_explicit]]
      cross_covariance_Cons[OF A] R transpose3 matmul3 smul_mat3_explicit
    by (simp add: algebra_simps)
  finally show ?case by (simp add: p)
qed

lemma gram_facts_conj:
  assumes "\<forall>p \<in> set X. length p = 3"
  shows "transpose_mat (cross_covariance X X) = cross_covariance X X \<and>
         trace3 (cross_covariance X X) = sum_list (map (\<lambda>p. dot p p) X) \<and>
         (\<forall>x y z. dot [x, y, z] (matvec (cross_covariance X X) [x, y, z])
           = sum_list (map (\<lambda>p. (dot p [x, y, z])\<^sup>2) X))"
  using assms
proof (induction X)
  case Nil
  show ?case by (simp add: cross_covariance_Nil transpose3 trace3_def matvec3 vec3_ops)
next
  case (Cons p X)
  from Cons.prems have "length p = 3" by simp
  then obtain u v w where p: "p = [u, v, w]" using list3_form by blast
  obtain a00 a01 a02 a10 a11 a12 a20 a21 a22 where
    A: "cross_covariance X X = [[a00, a01, a02], [a10, a11, a12], [a20, a21, a22]]"
    using cross_covariance_is_mat3 by (rule mat3_form)
  have prem: "\<forall>p \<in> set X. length p = 3" using Cons.prems by simp
  note IH0 = Cons.IH[OF prem]
  note IH = IH0[THEN conjunct1] IH0[THEN conjunct2, THEN conjunct1]
    IH0[THEN conjunct2, THEN conjunct2, rule_format]
  note e = IH(1)[unfolded A transpose3 list.inject]
  have sym: "a10 = a01" "a20 = a02" "a21 = a12"
    using e by blast+
  have tr: "a00 + a11 + a22 = sum_list (map (\<lambda>p. dot p p) X)"
    using IH(2) unfolding A trace3_def by simp
  have q: "x * (a00 * x + a01 * y + a02 * z) + y * (a10 * x + a11 * y + a12 * z)
      + z * (a20 * x + a21 * y + a22 * z) = sum_list (map (\<lambda>p. (dot p [x, y, z])\<^sup>2) X)" for x y z
    using IH(3)[of x y z] unfolding A matvec3 vec3_ops by simp
  have "transpose_mat (cross_covariance (p # X) (p # X)) = cross_covariance (p # X) (p # X)"
    unfolding p cross_covariance_Cons[OF A] transpose3 by (simp add: sym mult.commute)
  moreover have "trace3 (cross_covariance (p # X) (p # X)) = sum_list (map (\<lambda>p. dot p p) (p # X))"
    unfolding p cross_covariance_Cons[OF A] trace3_def using tr by (simp add: vec3_ops)
  moreover have "dot [x, y, z] (matvec (cross_covariance (p # X) (p # X)) [x, y, z])
           = sum_list (map (\<lambda>p. (dot p [x, y, z])\<^sup>2) (p # X))" for x y z
    unfolding p cross_covariance_Cons[OF A] matvec3 using q[of x y z]
    by (simp add: vec3_ops power2_eq_square algebra_simps)
  ultimately show ?case by blast
qed

subsection \<open>Orthogonal factors\<close>

lemma diag3_explicit: "diag3 [a, b, c] = [[a, 0, 0], [0, b, 0], [0, 0, c]]"
  by (simp add: diag3_def)

lemma diag3_is_mat3: "is_mat3 (diag3 d)"
  by (simp add: diag3_def is_mat3_def)

lemma smul_is_mat3: "is_mat3 A \<Longrightarrow> is_mat3 (smul_mat s A)"
  by (erule mat3_form) (simp add: smul_mat3_explicit is_mat3I)

lemma identity3_is_mat3: "is_mat3 identity3"
  by (simp add: identity3_def is_mat3I)

lemmas mat3_closed = matmul_is_mat3 transpose_is_mat3 diag3_is_mat3 smul_is_mat3
  identity3_is_mat3 cross_covariance_is_mat3

lemma orthogonal3D:
  assumes "orthogonal3 U"
  shows "is_mat3 U" "matmul U (transpose_mat U) = identity3"
    "matmul (transpose_mat U) U = identity3"
  using assms by (simp_all add: orthogonal3_def)

lemma orth_cancel:
  assumes "orthogonal3 U" "is_mat3 X"
  shows "matmul U (matmul (transpose_mat U) X) = X"
    and "matmul (transpose_mat U) (matmul U X) = X"
proof -
  note U = orthogonal3D[OF assms(1)]
  have "matmul U (matmul (transpose_mat U) X) = matmul (matmul U (transpose_mat U)) X"
    by (simp add: matmul_assoc U(1) assms(2) mat3_closed)
  then show "matmul U (matmul (transpose_mat U) X) = X"
    by (simp add: U(2) matmul_identity assms(2))
  have "matmul (transpose_mat U) (matmul U X) = matmul (matmul (transpose_mat U) U) X"
    by (simp add: matmul_assoc U(1) assms(2) mat3_closed)
  then show "matmul (transpose_mat U) (matmul U X) = X"
    by (simp add: U(3) matmul_identity assms(2))
qed

lemma orthogonal3_transpose: "orthogonal3 U \<Longrightarrow> orthogonal3 (transpose_mat U)"
  by (simp add: orthogonal3_def transpose_is_mat3 transpose_transpose)

lemma orthogonal3_matmul:
  assumes "orthogonal3 A" "orthogonal3 B"
  shows "orthogonal3 (matmul A B)"
proof -
  note A = orthogonal3D[OF assms(1)] and B = orthogonal3D[OF assms(2)]
  have t: "transpose_mat (matmul A B) = matmul (transpose_mat B) (transpose_mat A)"
    by (rule transpose_matmul[OF A(1) B(1)])
  have "matmul (matmul A B) (matmul (transpose_mat B) (transpose_mat A))
      = matmul A (matmul B (matmul (transpose_mat B) (transpose_mat A)))"
    by (simp add: matmul_assoc A(1) B(1) mat3_closed)
  also have "\<dots> = identity3"
    by (simp add: orth_cancel(1)[OF assms(2)] A mat3_closed)
  finally have 1: "matmul (matmul A B) (transpose_mat (matmul A B)) = identity3"
    by (simp add: t)
  have "matmul (matmul (transpose_mat B) (transpose_mat A)) (matmul A B)
      = matmul (transpose_mat B) (matmul (transpose_mat A) (matmul A B))"
    by (simp add: matmul_assoc A(1) B(1) mat3_closed)
  also have "\<dots> = identity3"
    by (simp add: orth_cancel(2)[OF assms(1)] B mat3_closed)
  finally have 2: "matmul (transpose_mat (matmul A B)) (matmul A B) = identity3"
    by (simp add: t)
  show ?thesis
    by (simp add: orthogonal3_def 1 2 matmul_is_mat3 A(1) B(1))
qed

lemma matmul_smul_left:
  "is_mat3 A \<Longrightarrow> is_mat3 B \<Longrightarrow> matmul (smul_mat s A) B = smul_mat s (matmul A B)"
  by (rule matmul_smul)

text \<open>
  With \<open>H = s A R\<^sup>T = U \<Sigma> Vt\<close> and \<open>W = Vt R U\<close>, the product \<open>\<Sigma> W\<close> is \<open>s U\<^sup>T A U\<close>.
\<close>

lemma sigma_W:
  assumes U: "orthogonal3 U" and Vt: "orthogonal3 Vt" and R: "orthogonal3 R"
    and A: "is_mat3 A"
    and svd: "matmul (matmul U (diag3 S)) Vt = smul_mat s (matmul A (transpose_mat R))"
  shows "matmul (diag3 S) (matmul (matmul Vt R) U)
           = smul_mat s (matmul (matmul (transpose_mat U) A) U)"
proof -
  note u = orthogonal3D[OF U] and v = orthogonal3D[OF Vt] and r = orthogonal3D[OF R]
  let ?Sg = "diag3 S" and ?Ut = "transpose_mat U" and ?Rt = "transpose_mat R"
  have "matmul ?Sg Vt = matmul ?Ut (matmul U (matmul ?Sg Vt))"
    by (simp add: orth_cancel(2)[OF U] mat3_closed v(1))
  also have "\<dots> = matmul ?Ut (matmul (matmul U ?Sg) Vt)"
    by (simp add: matmul_assoc u(1) v(1) mat3_closed)
  also have "\<dots> = matmul ?Ut (smul_mat s (matmul A ?Rt))"
    by (simp only: svd)
  finally have SV: "matmul ?Sg Vt = matmul ?Ut (smul_mat s (matmul A ?Rt))" .
  have AR: "matmul (matmul A ?Rt) R = A"
  proof -
    have "matmul (matmul A ?Rt) R = matmul A (matmul ?Rt R)"
      by (simp add: matmul_assoc A r(1) mat3_closed)
    then show ?thesis by (simp add: r(3) matmul_identity A)
  qed
  have "matmul ?Sg (matmul (matmul Vt R) U) = matmul (matmul (matmul ?Sg Vt) R) U"
    by (simp add: matmul_assoc u(1) v(1) r(1) mat3_closed)
  also have "\<dots> = matmul (matmul (matmul ?Ut (smul_mat s (matmul A ?Rt))) R) U"
    by (simp only: SV)
  also have "\<dots> = matmul (matmul ?Ut (matmul (smul_mat s (matmul A ?Rt)) R)) U"
    by (simp add: matmul_assoc A u(1) r(1) mat3_closed)
  also have "matmul (smul_mat s (matmul A ?Rt)) R = smul_mat s A"
    by (simp add: matmul_smul_left A r(1) mat3_closed AR)
  also have "matmul (matmul ?Ut (smul_mat s A)) U = smul_mat s (matmul (matmul ?Ut A) U)"
    by (simp add: matmul_smul_right matmul_smul_left A u(1) mat3_closed)
  finally show ?thesis .
qed

lemma matvec_matmul:
  assumes "is_mat3 A" "is_mat3 B" "length x = 3"
  shows "matvec (matmul A B) x = matvec A (matvec B x)"
proof -
  obtain a1 a2 a3 a4 a5 a6 a7 a8 a9 where A: "A = [[a1, a2, a3], [a4, a5, a6], [a7, a8, a9]]"
    using assms(1) by (rule mat3_form)
  obtain b1 b2 b3 b4 b5 b6 b7 b8 b9 where B: "B = [[b1, b2, b3], [b4, b5, b6], [b7, b8, b9]]"
    using assms(2) by (rule mat3_form)
  obtain u v w where x: "x = [u, v, w]" using list3_form[OF assms(3)] by blast
  show ?thesis unfolding A B x matmul3 matvec3 by (simp add: algebra_simps)
qed

lemma dot_transpose:
  assumes "is_mat3 A" "length x = 3" "length y = 3"
  shows "dot x (matvec (transpose_mat A) y) = dot (matvec A x) y"
proof -
  obtain a1 a2 a3 a4 a5 a6 a7 a8 a9 where A: "A = [[a1, a2, a3], [a4, a5, a6], [a7, a8, a9]]"
    using assms(1) by (rule mat3_form)
  obtain u v w where x: "x = [u, v, w]" using list3_form[OF assms(2)] by blast
  obtain u' v' w' where y: "y = [u', v', w']" using list3_form[OF assms(3)] by blast
  show ?thesis unfolding A x y transpose3 matvec3 vec3_ops by (simp add: algebra_simps)
qed

lemma matvec_length: "is_mat3 A \<Longrightarrow> length (matvec A x) = 3"
  by (simp add: matvec_def is_mat3_def)

lemma matvec_smul_mat:
  assumes "is_mat3 A" "length x = 3"
  shows "matvec (smul_mat s A) x = smul_vec s (matvec A x)"
  using assms by (rule matvec_smul)

lemma dot_smul_right: "length x = 3 \<Longrightarrow> length y = 3 \<Longrightarrow> dot x (smul_vec s y) = s * dot x y"
proof -
  assume "length x = 3" "length y = 3"
  then obtain a b c u v w where "x = [a, b, c]" "y = [u, v, w]"
    using list3_form by metis
  then show ?thesis by (simp add: vec3_ops algebra_simps)
qed

text \<open>The quadratic form of \<open>s U\<^sup>T A U\<close> is the one of \<open>A\<close> at \<open>U x\<close>, times \<open>s\<close>.\<close>

lemma conjugate_quadratic_form:
  assumes "is_mat3 U" "is_mat3 A" "length x = 3"
  shows "dot x (matvec (smul_mat s (matmul (matmul (transpose_mat U) A) U)) x)
           = s * dot (matvec U x) (matvec A (matvec U x))"
proof -
  have l: "length (matvec U x) = 3" "length (matvec A (matvec U x)) = 3"
    using assms by (simp_all add: matvec_length)
  have "matvec (smul_mat s (matmul (matmul (transpose_mat U) A) U)) x
      = smul_vec s (matvec (transpose_mat U) (matvec A (matvec U x)))"
    by (simp add: matvec_smul_mat matvec_matmul assms l mat3_closed)
  then show ?thesis
    by (simp add: dot_smul_right dot_transpose assms l matvec_length mat3_closed)
qed

lemma trace3_commute:
  assumes "is_mat3 A" "is_mat3 B"
  shows "trace3 (matmul A B) = trace3 (matmul B A)"
proof -
  obtain a1 a2 a3 a4 a5 a6 a7 a8 a9 where A: "A = [[a1, a2, a3], [a4, a5, a6], [a7, a8, a9]]"
    using assms(1) by (rule mat3_form)
  obtain b1 b2 b3 b4 b5 b6 b7 b8 b9 where B: "B = [[b1, b2, b3], [b4, b5, b6], [b7, b8, b9]]"
    using assms(2) by (rule mat3_form)
  show ?thesis unfolding A B matmul3 trace3_def by (simp add: algebra_simps)
qed

lemma trace3_smul: "is_mat3 A \<Longrightarrow> trace3 (smul_mat s A) = s * trace3 A"
  by (erule mat3_form) (simp add: smul_mat3_explicit trace3_def algebra_simps)

lemma trace3_conjugate:
  assumes "orthogonal3 U" "is_mat3 A"
  shows "trace3 (smul_mat s (matmul (matmul (transpose_mat U) A) U)) = s * trace3 A"
proof -
  note u = orthogonal3D[OF assms(1)]
  have "trace3 (matmul (matmul (transpose_mat U) A) U)
      = trace3 (matmul U (matmul (transpose_mat U) A))"
    by (rule trace3_commute) (simp_all add: u(1) assms(2) mat3_closed)
  also have "\<dots> = trace3 A"
    by (simp add: orth_cancel(1)[OF assms] )
  finally show ?thesis
    by (simp add: trace3_smul u(1) assms(2) mat3_closed)
qed

lemma transpose_smul: "is_mat3 A \<Longrightarrow> transpose_mat (smul_mat s A) = smul_mat s (transpose_mat A)"
  by (erule mat3_form) (simp add: smul_mat3_explicit transpose3)

lemma conjugate_symmetric:
  assumes "is_mat3 U" "is_mat3 A" "transpose_mat A = A"
  shows "transpose_mat (smul_mat s (matmul (matmul (transpose_mat U) A) U))
           = smul_mat s (matmul (matmul (transpose_mat U) A) U)"
proof -
  have "transpose_mat (matmul (matmul (transpose_mat U) A) U)
      = matmul (transpose_mat U) (matmul A U)"
    by (simp add: transpose_matmul transpose_transpose assms mat3_closed)
  also have "\<dots> = matmul (matmul (transpose_mat U) A) U"
    by (simp add: matmul_assoc assms mat3_closed)
  finally show ?thesis
    by (simp add: transpose_smul assms mat3_closed)
qed

lemma sq_sum3_zero:
  fixes a b c :: real
  assumes "a\<^sup>2 + b\<^sup>2 + c\<^sup>2 = 0"
  shows "a = 0" "b = 0" "c = 0"
proof -
  have "0 \<le> a\<^sup>2" "0 \<le> b\<^sup>2" "0 \<le> c\<^sup>2" by simp_all
  with assms have "a\<^sup>2 = 0" "b\<^sup>2 = 0" "c\<^sup>2 = 0" by linarith+
  then show "a = 0" "b = 0" "c = 0" by simp_all
qed

text \<open>
  The heart of the round trip: if \<open>\<Sigma> W\<close> is symmetric and positive semidefinite for an
  orthogonal \<open>W\<close> and singular values \<open>s1 \<ge> s2 > 0\<close>, \<open>s3 \<ge> 0\<close>, then \<open>W\<close> is the identity up
  to the sign of its last diagonal entry.
\<close>

lemma W_shape:
  fixes s1 s2 s3 :: real
  assumes W: "orthogonal3 W"
    and sym: "transpose_mat (matmul (diag3 [s1, s2, s3]) W) = matmul (diag3 [s1, s2, s3]) W"
    and psd: "\<And>x y z. 0 \<le> dot [x, y, z] (matvec (matmul (diag3 [s1, s2, s3]) W) [x, y, z])"
    and pos: "0 < s1" "0 < s2" "0 \<le> s3"
  shows "\<exists>w. W = [[1, 0, 0], [0, 1, 0], [0, 0, w]] \<and> w * w = 1 \<and> s3 * w = s3"
proof -
  note w = orthogonal3D[OF W]
  obtain w11 w12 w13 w21 w22 w23 w31 w32 w33 where
    We: "W = [[w11, w12, w13], [w21, w22, w23], [w31, w32, w33]]"
    using w(1) by (rule mat3_form)
  note rows = w(2)[unfolded We transpose3 matmul3 identity3_def list.inject]
  note cols = w(3)[unfolded We transpose3 matmul3 identity3_def list.inject]
  have B: "matmul (diag3 [s1, s2, s3]) W
      = [[s1 * w11, s1 * w12, s1 * w13], [s2 * w21, s2 * w22, s2 * w23],
         [s3 * w31, s3 * w32, s3 * w33]]"
    by (simp add: We diag3_explicit matmul3)
  note se = sym[unfolded B transpose3 list.inject]
  have s21: "s2 * w21 = s1 * w12" and s31: "s3 * w31 = s1 * w13" and s32: "s3 * w32 = s2 * w23"
    using se by blast+
  have r11: "w11 * w11 + w12 * w12 + w13 * w13 = 1" and r12: "w11 * w21 + w12 * w22 + w13 * w23 = 0"
    and r13: "w11 * w31 + w12 * w32 + w13 * w33 = 0" and r22: "w21 * w21 + w22 * w22 + w23 * w23 = 1"
    and r23: "w21 * w31 + w22 * w32 + w23 * w33 = 0" and r33: "w31 * w31 + w32 * w32 + w33 * w33 = 1"
    using rows by blast+
  have c11: "w11 * w11 + w21 * w21 + w31 * w31 = 1" and c22: "w12 * w12 + w22 * w22 + w32 * w32 = 1"
    and c33: "w13 * w13 + w23 * w23 + w33 * w33 = 1"
    using cols by blast+
  define b11 where "b11 = s1 * w11"
  define b12 where "b12 = s1 * w12"
  define b13 where "b13 = s1 * w13"
  define b22 where "b22 = s2 * w22"
  define b23 where "b23 = s2 * w23"
  define b33 where "b33 = s3 * w33"
  have b21: "s2 * w21 = b12" and b31: "s3 * w31 = b13" and b32: "s3 * w32 = b23"
    by (simp_all add: b12_def b13_def b23_def s21 s31 s32)
  have q1: "b11 * b11 + b12 * b12 + b13 * b13 = s1 * s1"
  proof -
    have "b11 * b11 + b12 * b12 + b13 * b13 = s1 * s1 * (w11 * w11 + w12 * w12 + w13 * w13)"
      by (simp add: b11_def b12_def b13_def algebra_simps)
    then show ?thesis by (simp add: r11)
  qed
  have q2: "b11 * b12 + b12 * b22 + b13 * b23 = 0"
  proof -
    have "b11 * b12 + b12 * b22 + b13 * b23
        = (s1 * w11) * (s2 * w21) + (s1 * w12) * (s2 * w22) + (s1 * w13) * (s2 * w23)"
      by (simp add: b21 b11_def b12_def b13_def b22_def b23_def)
    also have "\<dots> = s1 * s2 * (w11 * w21 + w12 * w22 + w13 * w23)" by (simp add: algebra_simps)
    finally show ?thesis by (simp add: r12)
  qed
  have q3: "b11 * b13 + b12 * b23 + b13 * b33 = 0"
  proof -
    have "b11 * b13 + b12 * b23 + b13 * b33
        = (s1 * w11) * (s3 * w31) + (s1 * w12) * (s3 * w32) + (s1 * w13) * (s3 * w33)"
      by (simp add: b31 b32 b11_def b12_def b13_def b33_def)
    also have "\<dots> = s1 * s3 * (w11 * w31 + w12 * w32 + w13 * w33)" by (simp add: algebra_simps)
    finally show ?thesis by (simp add: r13)
  qed
  have q4: "b12 * b12 + b22 * b22 + b23 * b23 = s2 * s2"
  proof -
    have "b12 * b12 + b22 * b22 + b23 * b23
        = (s2 * w21) * (s2 * w21) + (s2 * w22) * (s2 * w22) + (s2 * w23) * (s2 * w23)"
      by (simp add: b21 b22_def b23_def)
    also have "\<dots> = s2 * s2 * (w21 * w21 + w22 * w22 + w23 * w23)" by (simp add: algebra_simps)
    finally show ?thesis by (simp add: r22)
  qed
  have q5: "b12 * b13 + b22 * b23 + b23 * b33 = 0"
  proof -
    have "b12 * b13 + b22 * b23 + b23 * b33
        = (s2 * w21) * (s3 * w31) + (s2 * w22) * (s3 * w32) + (s2 * w23) * (s3 * w33)"
      by (simp add: b21 b31 b32 b22_def b23_def b33_def)
    also have "\<dots> = s2 * s3 * (w21 * w31 + w22 * w32 + w23 * w33)" by (simp add: algebra_simps)
    finally show ?thesis by (simp add: r23)
  qed
  have q6: "b13 * b13 + b23 * b23 + b33 * b33 = s3 * s3"
  proof -
    have "b13 * b13 + b23 * b23 + b33 * b33
        = (s3 * w31) * (s3 * w31) + (s3 * w32) * (s3 * w32) + (s3 * w33) * (s3 * w33)"
      by (simp add: b31 b32 b33_def)
    also have "\<dots> = s3 * s3 * (w31 * w31 + w32 * w32 + w33 * w33)" by (simp add: algebra_simps)
    finally show ?thesis by (simp add: r33)
  qed
  have form: "0 \<le> b11 * x * x + b22 * y * y + b33 * z * z
                       + 2 * b12 * x * y + 2 * b13 * x * z + 2 * b23 * y * z" for x y z
  proof -
    have "dot [x, y, z] (matvec (matmul (diag3 [s1, s2, s3]) W) [x, y, z])
        = b11 * x * x + b22 * y * y + b33 * z * z
            + (b12 + s2 * w21) * x * y + (b13 + s3 * w31) * x * z + (b23 + s3 * w32) * y * z"
      unfolding B matvec3 vec3_ops b11_def b12_def b13_def b22_def b23_def b33_def
      by (simp add: algebra_simps)
    then show ?thesis using psd[of x y z] by (simp add: b21 b31 b32)
  qed
  note core = psd_root_rows[OF q1 q2 q3 q4 q5 q6 form less_imp_le[OF pos(1)] less_imp_le[OF pos(2)] pos(3)]
  have "(b11 - s1)\<^sup>2 + b12\<^sup>2 + b13\<^sup>2 = 0" using core(1) pos(1) by simp
  from sq_sum3_zero[OF this] have e1: "b11 = s1" "b12 = 0" "b13 = 0" by simp_all
  have "b12\<^sup>2 + (b22 - s2)\<^sup>2 + b23\<^sup>2 = 0" using core(2) pos(2) by simp
  from sq_sum3_zero[OF this] have e2: "b22 = s2" "b23 = 0" by simp_all
  have w1: "w11 = 1" "w12 = 0" "w13 = 0"
    using e1 pos(1) by (simp_all add: b11_def b12_def b13_def)
  have w2: "w22 = 1" "w23 = 0" "w21 = 0"
    using e2 e1(2) b21 pos(2) by (simp_all add: b22_def b23_def)
  have "w31 * w31 = 0" using c11 by (simp add: w1 w2)
  then have w31: "w31 = 0" by simp
  have "w32 * w32 = 0" using c22 by (simp add: w1 w2)
  then have w32: "w32 = 0" by simp
  have w33: "w33 * w33 = 1" using c33 by (simp add: w1 w2)
  have s3w: "s3 * w33 = s3"
  proof (cases "s3 = 0")
    case True
    then show ?thesis by simp
  next
    case False
    then have "b13\<^sup>2 + b23\<^sup>2 + (b33 - s3)\<^sup>2 = 0" using core(3) by simp
    from sq_sum3_zero(3)[OF this] show ?thesis by (simp add: b33_def)
  qed
  show ?thesis
    by (rule exI[of _ w33]) (simp add: We w1 w2 w31 w32 w33 s3w)
qed

lemma orth_complement_parallel:
  assumes U: "orthogonal3 U" and lx: "length x = 3" and ly: "length y = 3"
    and x2: "dot x (matvec U [0, 1, 0]) = 0" and x3: "dot x (matvec U [0, 0, 1]) = 0"
    and y2: "dot y (matvec U [0, 1, 0]) = 0" and y3: "dot y (matvec U [0, 0, 1]) = 0"
  shows "cross x y = [0, 0, 0]"
proof -
  note u = orthogonal3D[OF U]
  obtain a b c d e f g h k where Ue: "U = [[a, b, c], [d, e, f], [g, h, k]]"
    using u(1) by (rule mat3_form)
  obtain x0 x1 x2 where xe: "x = [x0, x1, x2]" using list3_form[OF lx] by blast
  obtain y0 y1 y2 where ye: "y = [y0, y1, y2]" using list3_form[OF ly] by blast
  note rows = u(2)[unfolded Ue transpose3 matmul3 identity3_def list.inject]
  have r: "a * a + b * b + c * c = 1" "a * d + b * e + c * f = 0" "a * g + b * h + c * k = 0"
    "d * d + e * e + f * f = 1" "d * g + e * h + f * k = 0" "g * g + h * h + k * k = 1"
    using rows by blast+
  have along: "v0 = a * (a * v0 + d * v1 + g * v2) \<and> v1 = d * (a * v0 + d * v1 + g * v2) \<and>
               v2 = g * (a * v0 + d * v1 + g * v2)"
    if p2: "v0 * b + v1 * e + v2 * h = 0" and p3: "v0 * c + v1 * f + v2 * k = 0" for v0 v1 v2
  proof -
    let ?al = "a * v0 + d * v1 + g * v2"
    have "a * ?al = a * ?al + b * (v0 * b + v1 * e + v2 * h) + c * (v0 * c + v1 * f + v2 * k)"
      by (simp add: p2 p3)
    also have "\<dots> = (a * a + b * b + c * c) * v0 + (a * d + b * e + c * f) * v1
        + (a * g + b * h + c * k) * v2"
      by (simp add: algebra_simps)
    finally have 0: "a * ?al = v0" by (simp add: r)
    have "d * ?al = d * ?al + e * (v0 * b + v1 * e + v2 * h) + f * (v0 * c + v1 * f + v2 * k)"
      by (simp add: p2 p3)
    also have "\<dots> = (a * d + b * e + c * f) * v0 + (d * d + e * e + f * f) * v1
        + (d * g + e * h + f * k) * v2"
      by (simp add: algebra_simps)
    finally have 1: "d * ?al = v1" by (simp add: r)
    have "g * ?al = g * ?al + h * (v0 * b + v1 * e + v2 * h) + k * (v0 * c + v1 * f + v2 * k)"
      by (simp add: p2 p3)
    also have "\<dots> = (a * g + b * h + c * k) * v0 + (d * g + e * h + f * k) * v1
        + (g * g + h * h + k * k) * v2"
      by (simp add: algebra_simps)
    finally have 2: "g * ?al = v2" by (simp add: r)
    show ?thesis using 0 1 2 by simp
  qed
  have hx: "x0 * b + x1 * e + x2 * h = 0" "x0 * c + x1 * f + x2 * k = 0"
    using x2 x3 unfolding Ue xe matvec3 vec3_ops by simp_all
  have hy: "y0 * b + y1 * e + y2 * h = 0" "y0 * c + y1 * f + y2 * k = 0"
    using y2 y3 unfolding Ue ye matvec3 vec3_ops by simp_all
  define al where "al = a * x0 + d * x1 + g * x2"
  define be where "be = a * y0 + d * y1 + g * y2"
  have X: "x0 = a * al" "x1 = d * al" "x2 = g * al"
    using along[OF hx] by (simp_all add: al_def)
  have Y: "y0 = a * be" "y1 = d * be" "y2 = g * be"
    using along[OF hy] by (simp_all add: be_def)
  show ?thesis
    unfolding xe ye vec3_ops by (simp add: X Y)
qed

lemma sum_squares_zero:
  assumes "sum_list (map (\<lambda>p. (f p)\<^sup>2) X) = (0::real)" "p \<in> set X"
  shows "f p = 0"
proof -
  have "\<And>v. v \<in> set (map (\<lambda>p. (f p)\<^sup>2) X) \<Longrightarrow> 0 \<le> v" by auto
  from sum_list_nonneg_eq_0_iff[OF this] assms(1)
  have "\<forall>v \<in> set (map (\<lambda>p. (f p)\<^sup>2) X). v = 0" by blast
  then show ?thesis using assms(2) by auto
qed

lemma dot_vsub_left:
  assumes "length a = 3" "length b = 3" "length u = 3"
  shows "dot (vsub a b) u = dot a u - dot b u"
proof -
  obtain a0 a1 a2 b0 b1 b2 u0 u1 u2 where "a = [a0, a1, a2]" "b = [b0, b1, b2]" "u = [u0, u1, u2]"
    using assms list3_form by metis
  then show ?thesis by (simp add: vec3_ops algebra_simps)
qed

lemma vsub_vsub_common:
  assumes "length a = 3" "length b = 3" "length c = 3"
  shows "vsub b a = vsub (vsub b c) (vsub a c)" "length (vsub b a) = 3"
proof -
  obtain a0 a1 a2 b0 b1 b2 c0 c1 c2 where "a = [a0, a1, a2]" "b = [b0, b1, b2]" "c = [c0, c1, c2]"
    using assms list3_form by metis
  then show "vsub b a = vsub (vsub b c) (vsub a c)" "length (vsub b a) = 3"
    by (simp_all add: vec3_ops)
qed

text \<open>
  When the second singular value vanishes, every centred point is orthogonal to the second
  and third column of \<open>U\<close>, so all points lie on one line.
\<close>

lemma rank_two:
  assumes U: "orthogonal3 U" and W: "is_mat3 W"
    and pts: "\<forall>p \<in> set P. length p = 3" and geo: "\<not> insufficient_geometry P"
    and s: "0 < s" and ord: "s3 \<le> s2" "0 \<le> s3"
    and B: "matmul (diag3 [s1, s2, s3]) W
              = smul_mat s (matmul (matmul (transpose_mat U) (cross_covariance (centered P) (centered P))) U)"
  shows "0 < s2"
proof (rule ccontr)
  assume "\<not> 0 < s2"
  then have z: "s2 = 0" "s3 = 0" using ord by linarith+
  note u = orthogonal3D[OF U]
  let ?A = "cross_covariance (centered P) (centered P)"
  from geo obtain a b c where abc: "a \<in> set P" "b \<in> set P" "c \<in> set P"
    and nz: "cross (vsub b a) (vsub c a) \<noteq> [0, 0, 0]"
    by (auto simp: insufficient_geometry_def)
  have ne: "P \<noteq> []" using abc(1) by auto
  note cl = centered_lengths[OF pts ne]
  have cP: "length (centroid P) = 3"
    using centroid_affine(1)[OF pts identity3_is_mat3 _ ne, of "[0, 0, 0]"] by simp
  obtain w11 w12 w13 w21 w22 w23 w31 w32 w33 where
    We: "W = [[w11, w12, w13], [w21, w22, w23], [w31, w32, w33]]"
    using W by (rule mat3_form)
  have Bz: "matmul (diag3 [s1, s2, s3]) W = [[s1 * w11, s1 * w12, s1 * w13], [0, 0, 0], [0, 0, 0]]"
    by (simp add: We z diag3_explicit matmul3)
  have orth: "dot p (matvec U e) = 0"
    if e: "e = [0, 1, 0] \<or> e = [0, 0, 1]" and p: "p \<in> set (centered P)" for e p
  proof -
    have le: "length e = 3" using e by auto
    obtain x y z where Ue: "matvec U e = [x, y, z]"
      using list3_form[OF matvec_length[OF u(1), of e]] by blast
    have "dot e (matvec (matmul (diag3 [s1, s2, s3]) W) e) = 0"
      using e unfolding Bz by (auto simp: matvec3 vec3_ops)
    then have "s * dot (matvec U e) (matvec ?A (matvec U e)) = 0"
      unfolding B conjugate_quadratic_form[OF u(1) cross_covariance_is_mat3 le] .
    then have "dot [x, y, z] (matvec ?A [x, y, z]) = 0" using s by (simp add: Ue)
    then have "sum_list (map (\<lambda>p. (dot p [x, y, z])\<^sup>2) (centered P)) = 0"
      using gram_facts_conj[OF cl] by simp
    from sum_squares_zero[OF this p] show ?thesis by (simp add: Ue)
  qed
  have la: "length a = 3" "length b = 3" "length c = 3" using pts abc by blast+
  have mem: "vsub a (centroid P) \<in> set (centered P)" "vsub b (centroid P) \<in> set (centered P)"
    "vsub c (centroid P) \<in> set (centered P)"
    using abc by (auto simp: centered_def)
  have diff: "dot (vsub q a) (matvec U e) = 0"
    if e: "e = [0, 1, 0] \<or> e = [0, 0, 1]" and q: "q \<in> set P" for e q
  proof -
    have lq: "length q = 3" using pts q by blast
    have qm: "vsub q (centroid P) \<in> set (centered P)" using q by (auto simp: centered_def)
    have lu: "length (matvec U e) = 3" by (rule matvec_length[OF u(1)])
    have l1: "length (vsub q (centroid P)) = 3" "length (vsub a (centroid P)) = 3"
      using cl qm mem(1) by blast+
    show ?thesis
      unfolding vsub_vsub_common(1)[OF la(1) lq cP] dot_vsub_left[OF l1 lu]
      using orth[OF e qm] orth[OF e mem(1)] by simp
  qed
  have "cross (vsub b a) (vsub c a) = [0, 0, 0]"
    by (rule orth_complement_parallel[OF U vsub_vsub_common(2)[OF la(1) la(2) cP]
          vsub_vsub_common(2)[OF la(1) la(3) cP]])
       (simp_all add: diff abc)
  with nz show False by simp
qed

lemma dot_self_nonneg: "0 \<le> dot d d"
  unfolding dot_def by (induction d) simp_all

lemma residual_nonneg: "0 \<le> residual s R t P Q"
  unfolding residual_def by (rule sum_list_nonneg) (auto simp: Let_def dot_self_nonneg)

lemma dot_vsub_self: "dot (vsub v v) (vsub v v) = 0"
  unfolding dot_def vsub_def by (induction v) simp_all

lemma residual_exact: "residual s R t P (map (\<lambda>p. vadd (smul_vec s (matvec R p)) t) P) = 0"
  unfolding residual_def by (induction P) (simp_all add: Let_def dot_vsub_self)

lemma affine_minus_linear:
  assumes "is_mat3 R" "length c = 3" "length t = 3"
  shows "vsub (vadd (smul_vec s (matvec R c)) t) (smul_vec s (matvec R c)) = t"
proof -
  obtain a b d e f g h k l where R: "R = [[a, b, d], [e, f, g], [h, k, l]]"
    using assms(1) by (rule mat3_form)
  obtain c0 c1 c2 t0 t1 t2 where "c = [c0, c1, c2]" "t = [t0, t1, t2]"
    using assms(2,3) list3_form by metis
  then show ?thesis by (simp add: R matvec3 vec3_ops)
qed

lemma det3_shape: "det3 [[1, 0, 0], [0, 1, 0], [0, 0, w]] = w"
  by (simp add: det3_explicit)

text \<open>
  C8.  For a scale \<open>s > 0\<close>, a rotation \<open>R\<close>, a translation \<open>t\<close> and points \<open>P\<close> of which three
  are not on one line, the fit of \<open>P\<close> against \<open>s R P + t\<close> returns \<open>s\<close>, \<open>R\<close>, \<open>t\<close> and the
  target points, provided the decomposition it is given for the cross-covariance matrix is
  a singular value decomposition.  The sum of squared distances is then zero, which no
  other transform can improve on.  Arithmetic is exact here, so the tolerance is zero.
\<close>

theorem fit_similarity_round_trip:
  assumes s: "0 < s" and R: "is_rotation R" and t: "length t = 3"
    and pts: "\<forall>p \<in> set P. length p = 3" and geo: "\<not> insufficient_geometry P"
    and Q: "Q = map (\<lambda>p. vadd (smul_vec s (matvec R p)) t) P"
    and svd: "svd_valid (svd (cross_covariance (centered P) (centered Q)))
                (cross_covariance (centered P) (centered Q))"
  shows "fit_similarity svd P Q = Inr (s, R, t, Q) \<and>
         residual s R t P Q = 0 \<and>
         (\<forall>s' R' t'. residual s R t P Q \<le> residual s' R' t' P Q)"
proof -
  have Ro: "orthogonal3 R" and Rd: "det3 R = 1" using R by (simp_all add: is_rotation_def)
  note r = orthogonal3D[OF Ro]
  from geo have ne: "P \<noteq> []" by (auto simp: insufficient_geometry_def)
  let ?Pc = "centered P"
  let ?A = "cross_covariance ?Pc ?Pc"
  note cl = centered_lengths[OF pts ne]
  have Qc: "centered Q = map (\<lambda>x. smul_vec s (matvec R x)) ?Pc"
    unfolding Q by (rule centered_affine[OF pts r(1) t ne])
  have H: "cross_covariance ?Pc (centered Q) = smul_mat s (matmul ?A (transpose_mat R))"
    unfolding Qc by (rule cross_covariance_linear[OF cl r(1)])
  obtain U S Vt where dec: "svd (cross_covariance ?Pc (centered Q)) = (U, S, Vt)"
    by (cases "svd (cross_covariance ?Pc (centered Q))") auto
  note sv = svd[unfolded dec svd_valid_def prod.case]
  from sv have Uo: "orthogonal3 U" and Vo: "orthogonal3 Vt" and lS: "length S = 3"
    and ord: "S ! 1 \<le> S ! 0" "S ! 2 \<le> S ! 1" "0 \<le> S ! 2"
    and eq0: "matmul (matmul U (diag3 S)) Vt = cross_covariance ?Pc (centered Q)"
    by blast+
  note eq = eq0[unfolded H]
  obtain s1 s2 s3 where Se: "S = [s1, s2, s3]" using list3_form[OF lS] by blast
  have ord': "s2 \<le> s1" "s3 \<le> s2" "0 \<le> s3" using ord by (simp_all add: Se)
  note u = orthogonal3D[OF Uo] and v = orthogonal3D[OF Vo]
  let ?W = "matmul (matmul Vt R) U"
  let ?B = "smul_mat s (matmul (matmul (transpose_mat U) ?A) U)"
  have Wo: "orthogonal3 ?W" by (intro orthogonal3_matmul Vo Ro Uo)
  have SW: "matmul (diag3 [s1, s2, s3]) ?W = ?B"
    using sigma_W[OF Uo Vo Ro cross_covariance_is_mat3 eq] by (simp add: Se)
  note gram = gram_facts_conj[OF cl]
  have s2: "0 < s2"
    by (rule rank_two[OF Uo orthogonal3D(1)[OF Wo] pts geo s ord'(2,3) SW])
  then have s1: "0 < s1" using ord'(1) by linarith
  have sym: "transpose_mat (matmul (diag3 [s1, s2, s3]) ?W) = matmul (diag3 [s1, s2, s3]) ?W"
    unfolding SW using gram by (intro conjugate_symmetric u(1) cross_covariance_is_mat3) blast
  have psd: "0 \<le> dot [x, y, z] (matvec (matmul (diag3 [s1, s2, s3]) ?W) [x, y, z])" for x y z
  proof -
    obtain a b c where Ux: "matvec U [x, y, z] = [a, b, c]"
      using list3_form[OF matvec_length[OF u(1), of "[x, y, z]"]] by blast
    have "dot [a, b, c] (matvec ?A [a, b, c]) = sum_list (map (\<lambda>p. (dot p [a, b, c])\<^sup>2) ?Pc)"
      using gram by blast
    also have "0 \<le> \<dots>" by (rule sum_list_nonneg) auto
    finally have "0 \<le> s * dot (matvec U [x, y, z]) (matvec ?A (matvec U [x, y, z]))"
      using s by (simp add: Ux)
    then show ?thesis
      unfolding SW by (simp add: conjugate_quadratic_form[OF u(1) cross_covariance_is_mat3])
  qed
  obtain w where We: "?W = [[1, 0, 0], [0, 1, 0], [0, 0, w]]" and s3w: "s3 * w = s3"
    using W_shape[OF Wo sym psd s1 s2 ord'(3)] by blast
  \<comment> \<open>the determinant correction is the last diagonal entry of \<open>W\<close>\<close>
  have "det3 ?W = det3 Vt * det3 U"
    by (simp add: det3_matmul u(1) v(1) r(1) mat3_closed Rd)
  moreover have "det3 (matmul (transpose_mat Vt) (transpose_mat U)) = det3 Vt * det3 U"
    by (simp add: det3_matmul det3_transpose u(1) v(1) mat3_closed)
  ultimately have dw: "det3 (matmul (transpose_mat Vt) (transpose_mat U)) = w"
    by (simp add: We det3_shape)
  have D: "diag3 [1, 1, det3 (matmul (transpose_mat Vt) (transpose_mat U))] = ?W"
    by (simp add: dw diag3_explicit We)
  have Rout: "matmul (matmul (transpose_mat Vt) ?W) (transpose_mat U) = R"
  proof -
    have "matmul (transpose_mat Vt) ?W = matmul (transpose_mat Vt) (matmul Vt (matmul R U))"
      by (simp add: matmul_assoc u(1) v(1) r(1) mat3_closed)
    also have "\<dots> = matmul R U"
      by (simp add: orth_cancel(2)[OF Vo] u(1) r(1) mat3_closed)
    finally have "matmul (matmul (transpose_mat Vt) ?W) (transpose_mat U)
        = matmul R (matmul U (transpose_mat U))"
      by (simp add: matmul_assoc u(1) r(1) mat3_closed)
    then show ?thesis by (simp add: u(2) matmul_identity r(1))
  qed
  \<comment> \<open>the scale\<close>
  let ?T = "sum_list (map (\<lambda>p. dot p p) ?Pc)"
  have "trace3 (matmul (diag3 [s1, s2, s3]) ?W) = s1 + s2 + s3"
    unfolding We by (simp add: diag3_explicit matmul3 trace3_def s3w)
  moreover have "trace3 ?B = s * ?T"
    using trace3_conjugate[OF Uo cross_covariance_is_mat3, of s ?Pc ?Pc] gram by simp
  ultimately have tr: "s1 + s2 + s3 = s * ?T" by (simp add: SW)
  then have "?T \<noteq> 0" using s1 s2 ord'(3) by auto
  then have sout: "sum_list S / ?T = s" using tr by (simp add: Se field_simps)
  \<comment> \<open>the translation\<close>
  have cP: "length (centroid P) = 3" by (rule centroid_affine(1)[OF pts r(1) t ne])
  have tout: "vsub (centroid Q) (smul_vec s (matvec R (centroid P))) = t"
    unfolding Q centroid_affine(2)[OF pts r(1) t ne]
    by (rule affine_minus_linear[OF r(1) cP t])
  have "fit_similarity svd P Q = Inr (s, R, t, Q)"
    unfolding fit_similarity_def using geo
    by (simp add: Let_def dec D Rout sout tout) (simp add: Q)
  moreover have "residual s R t P Q = 0" unfolding Q by (rule residual_exact)
  ultimately show ?thesis using residual_nonneg by simp
qed

lemma quarter_turn_rotation: "is_rotation quarter_turn"
  by (simp add: is_rotation_def orthogonal3_def quarter_turn_def is_mat3I transpose3 matmul3
      identity3_def det3_explicit)

lemma square_points_geometry: "\<not> insufficient_geometry square_points"
proof -
  have "[1, 0, 0] \<in> set square_points" "[- 1, 0, 0] \<in> set square_points"
    "[0, 1, 0] \<in> set square_points"
    by (simp_all add: square_points_def)
  moreover have "cross (vsub [- 1, 0, 0] [1, 0, 0]) (vsub [0, 1, 0] [1, 0, 0]) \<noteq> [0, 0, (0::real)]"
    by (simp add: vec3_ops)
  ultimately show ?thesis unfolding insufficient_geometry_def by blast
qed

lemma square_points_image:
  "map (\<lambda>p. vadd (smul_vec 2 (matvec quarter_turn p)) [1, 2, 3]) square_points
     = [[1, 4, 3], [1, 0, 3], [- 1, 2, 3], [3, 2, 3]]"
  by (simp add: square_points_def quarter_turn_def matvec3 vec3_ops)

lemma square_cross_covariance:
  "cross_covariance (centered square_points) (centered [[1, 4, 3], [1, 0, 3], [- 1, 2, 3], [3, 2, 3]])
     = [[0, 4, 0], [- 4, 0, 0], [0, 0, 0]]"
  by (simp add: centered_def centroid_def square_points_def vec3_ops cross_covariance_def upt_3)

lemma square_svd_valid: "svd_valid (square_svd H) [[0, 4, 0], [- 4, 0, 0], [0, 0, 0]]"
  by (simp add: svd_valid_def square_svd_def orthogonal3_def identity3_def is_mat3I transpose3
      matmul3 diag3_explicit)

theorem fit_similarity_round_trip_witness:
  "fit_similarity square_svd square_points [[1, 4, 3], [1, 0, 3], [- 1, 2, 3], [3, 2, 3]]
     = Inr (2, quarter_turn, [1, 2, 3], [[1, 4, 3], [1, 0, 3], [- 1, 2, 3], [3, 2, 3]])"
proof -
  have pts: "\<forall>p \<in> set square_points. length p = 3" by (simp add: square_points_def)
  have sv: "svd_valid
      (square_svd (cross_covariance (centered square_points)
         (centered [[1, 4, 3], [1, 0, 3], [- 1, 2, 3], [3, 2, 3]])))
      (cross_covariance (centered square_points)
         (centered [[1, 4, 3], [1, 0, 3], [- 1, 2, 3], [3, 2, 3]]))"
    unfolding square_cross_covariance by (rule square_svd_valid)
  have "(0::real) < 2" "length [1, 2, 3 :: real] = 3" by simp_all
  from fit_similarity_round_trip[where svd = square_svd, OF this(1) quarter_turn_rotation this(2) pts
      square_points_geometry square_points_image[symmetric] sv]
  show ?thesis by blast
qed

end
